theory Spec2Isabelle
  imports Complex_Main "HOL-Library.Monad_Syntax"
begin

section \<open>The operator's task supervisor (kopf/_core/reactor/running.py)\<close>

text \<open>
  The module is asynchronous Python. Every coroutine of it is embedded as a function
  that is given, as an argument, how each thing it awaits turns out (it returns, it
  raises, the coroutine is cancelled while it waits, or the wait never ends), and that
  returns how the coroutine itself ends together with the effects it had, in the order
  it had them. A coroutine that never returns has the value \<open>None\<close>.
\<close>

subsection \<open>Values, exceptions, tasks\<close>

text \<open>The OS signals the module names.\<close>

datatype signal = SIGINT | SIGTERM | SIGKILL

text \<open>
  The exceptions that occur: \<open>asyncio.CancelledError\<close>, the \<open>TypeError\<close> of
  \<open>spawn_tasks\<close>, \<open>asyncio.InvalidStateError\<close> of a future resolved twice, the
  \<open>ValueError\<close> of \<open>asyncio.wait\<close> on nothing, and any other exception of a
  task (with its text).
\<close>

datatype exn =
    CancelledError
  | TypeError string
  | InvalidStateError
  | ValueError string
  | Exception string

text \<open>How a task, or an awaited call, ends.\<close>

datatype result = Returned | Raised exn

text \<open>A task of the event loop; two tasks are the same task when they are the same object.\<close>

type_synonym task = nat

datatype return_when = FIRST_COMPLETED | ALL_COMPLETED

datatype activity = STARTUP | CLEANUP

text \<open>
  The effects, as calls: of \<open>warnings.warn\<close> (category, text), of the logger, of
  \<open>aiotasks.create_task\<close> and \<open>create_guarded_task\<close> (the task, its name),
  of \<open>loop.add_signal_handler\<close>, of \<open>aiotasks.wait\<close> (tasks, timeout,
  return_when) and \<open>aiotasks.stop\<close> (title, tasks, cancelled, interval), of
  \<open>task.cancel()\<close>, the completion of an awaited task, of
  \<open>activities.run_activity\<close> (begun, and ended without an exception),
  \<open>started_flag.set()\<close>, \<open>aioadapters.raise_flag(ready_flag)\<close>,
  \<open>vault.close()\<close>, and
  \<open>loop.call_later(delay, signal.pthread_kill, threading.get_ident(), sig)\<close>.
\<close>

datatype event =
    Warn string string
  | LogDebug string
  | LogInfo string
  | LogWarning string
  | CreateTask task string
  | CreateGuardedTask task string
  | AddSignalHandler signal
  | Wait "task list" "real option" return_when
  | Stop string "task list" bool "real option"
  | Cancel task
  | Awaited task
  | RunActivity activity
  | ActivityDone activity
  | SetStarted
  | RaiseReady
  | VaultClose
  | CallLater real signal

subsection \<open>Settings\<close>

text \<open>
  \<open>configuration.OperatorSettings\<close> is not part of the module; these are the fields
  the module reads and writes: \<open>settings.peering.clusterwide\<close>, \<open>.mandatory\<close>,
  \<open>.name\<close>, \<open>.standalone\<close>, \<open>.priority\<close>, and
  \<open>settings.process.ultimate_exiting_timeout\<close>, which may be \<open>None\<close>.
\<close>

record peering_settings =
  clusterwide :: bool
  mandatory :: bool
  name :: string
  standalone :: bool
  priority :: int

record process_settings =
  ultimate_exiting_timeout :: "real option"

record operator_settings =
  peering :: peering_settings
  process :: process_settings

subsection \<open>The external stop flag\<close>

text \<open>
  Modelled from the spec: \<open>aioadapters.check_flag\<close> is not in the sources. The
  stop signal is "an externally owned boolean-like flag (may be absent)" with
  "\<open>StopSignal.check() -> bool\<close> non-blocking". A flag is given here by whether it is
  set; an absent flag (\<open>None\<close>) is not set.
\<close>

definition check_flag :: "bool option \<Rightarrow> bool" where
  "check_flag stop_flag = (case stop_flag of None \<Rightarrow> False | Some is_set \<Rightarrow> is_set)"

subsection \<open>\<open>_ultimate_termination\<close>\<close>

text \<open>
  \<^verbatim>\<open>
  try:
      await asyncio.Event().wait()
  except asyncio.CancelledError:
      if not aioadapters.check_flag(stop_flag):
          if settings.process.ultimate_exiting_timeout is not None:
              loop = asyncio.get_running_loop()
              loop.call_later(settings.process.ultimate_exiting_timeout,
                              signal.pthread_kill, threading.get_ident(), signal.SIGKILL)
  \<close>
  Nothing sets the fresh event, so the wait ends only by the cancellation of the task;
  \<open>cancelled\<close> says whether that ever happens. The stop flag is read at that
  moment. The coroutine then returns normally: the cancellation is not re-raised.
\<close>

definition ultimate_termination ::
  "operator_settings \<Rightarrow> bool option \<Rightarrow> bool \<Rightarrow> (result \<times> event list) option" where
  "ultimate_termination settings stop_flag cancelled =
     (if \<not> cancelled then None
      else if \<not> check_flag stop_flag then
        (case ultimate_exiting_timeout (process settings) of
           Some delay \<Rightarrow> Some (Returned, [CallLater delay SIGKILL])
         | None \<Rightarrow> Some (Returned, []))
      else Some (Returned, []))"

subsection \<open>The event loop\<close>

text \<open>
  What the supervisor can observe of the event loop: its tasks (the task that runs the
  supervisor's own coroutine is not among them), which of them have finished and how,
  and the effects so far.
\<close>

record state =
  population :: "task list"
  results :: "task \<Rightarrow> result option"
  trace :: "event list"

definition emit :: "event list \<Rightarrow> state \<Rightarrow> state" where
  "emit es s = s\<lparr>trace := trace s @ es\<rparr>"

text \<open>
  \<open>aiotasks.create_task(name=..., coro=...)\<close> and
  \<open>aiotasks.create_guarded_task(name=..., flag=started_flag, ...)\<close>: a new task of
  the loop, different from every task there is.
\<close>

definition new_task :: "state \<Rightarrow> task" where
  "new_task s = Suc (fold max (population s) 0)"

definition create_task :: "string \<Rightarrow> state \<Rightarrow> task \<times> state" where
  "create_task nm s =
     (new_task s, emit [CreateTask (new_task s) nm] (s\<lparr>population := population s @ [new_task s]\<rparr>))"

definition create_guarded_task :: "string \<Rightarrow> state \<Rightarrow> task \<times> state" where
  "create_guarded_task nm s =
     (new_task s,
      emit [CreateGuardedTask (new_task s) nm] (s\<lparr>population := population s @ [new_task s]\<rparr>))"

text \<open>
  A run of \<open>tasks.append(create_..._task(...))\<close> statements, in their order: each
  entry says whether the task is guarded, and its name.
\<close>

fun create_all :: "(bool \<times> string) list \<Rightarrow> state \<Rightarrow> task list \<times> state" where
  "create_all [] s = ([], s)"
| "create_all ((guarded, nm) # rest) s =
     (let (t, s1) = (if guarded then create_guarded_task nm s else create_task nm s);
          (ts, s2) = create_all rest s1
      in (t # ts, s2))"

subsection \<open>\<open>spawn_tasks\<close>\<close>

text \<open>
  The keyword arguments that decide what \<open>spawn_tasks\<close> does here (the collaborators
  it only hands on to the tasks are left out: lifecycle, indexers, registry, memories,
  insights, identity, the two flags, vault, memo), and two facts of the environment:
  whether the call runs in the main thread, and whether the loop supports signal
  handlers (it raises \<open>NotImplementedError\<close> on Windows). A namespace pattern is a
  string; \<open>opt_command\<close> says whether \<open>_command\<close> is given.
\<close>

record options =
  opt_settings :: operator_settings
  opt_standalone :: "bool option"
  opt_priority :: "int option"
  opt_peering_name :: "string option"
  opt_liveness_endpoint :: "string option"
  opt_clusterwide :: bool
  opt_namespaces :: "string list"
  opt_namespace :: "string option"
  opt_command :: bool
  in_main_thread :: bool
  signals_supported :: bool

text \<open>Python's truth value of an optional string: \<open>None\<close> and \<open>""\<close> are false.\<close>

definition truthy :: "string option \<Rightarrow> bool" where
  "truthy x = (case x of None \<Rightarrow> False | Some str \<Rightarrow> str \<noteq> [])"

text \<open>
  What \<open>spawn_tasks\<close> returns (the two lists), and the objects it has changed on
  the way: the settings, and its local \<open>namespaces\<close>.
\<close>

record spawned =
  spawned_system :: "task list"
  spawned_root :: "task list"
  spawned_settings :: operator_settings
  spawned_namespaces :: "string list"

text \<open>
  \<^verbatim>\<open>
  settings.peering.clusterwide = clusterwide
  if peering_name is not None:
      settings.peering.mandatory = True
      settings.peering.name = peering_name
  if standalone is not None:
      settings.peering.standalone = standalone
  if priority is not None:
      settings.peering.priority = priority
  \<close>
\<close>

definition map_kwargs ::
  "bool \<Rightarrow> string option \<Rightarrow> bool option \<Rightarrow> int option \<Rightarrow> operator_settings \<Rightarrow> operator_settings" where
  "map_kwargs cw peering_name stand prio st =
     (let p0 = (peering st)\<lparr>clusterwide := cw\<rparr>;
          p1 = (case peering_name of None \<Rightarrow> p0 | Some n \<Rightarrow> p0\<lparr>mandatory := True, name := n\<rparr>);
          p2 = (case stand of None \<Rightarrow> p1 | Some b \<Rightarrow> p1\<lparr>standalone := b\<rparr>);
          p3 = (case prio of None \<Rightarrow> p2 | Some n \<Rightarrow> p2\<lparr>priority := n\<rparr>)
      in st\<lparr>peering := p3\<rparr>)"

text \<open>The system tasks, in the order of their creation: three plain, two guarded.\<close>

definition system_task_names :: "(bool \<times> string) list" where
  "system_task_names =
     [(False, ''stop-flag checker''),
      (False, ''ultimate termination''),
      (False, ''startup/cleanup activities''),
      (True, ''daemon killer''),
      (True, ''credentials retriever'')]"

text \<open>The root tasks, all guarded; two of them depend on the arguments.\<close>

definition root_task_names :: "string option \<Rightarrow> bool \<Rightarrow> (bool \<times> string) list" where
  "root_task_names liveness_endpoint command =
     [(True, ''poster of events'')]
     @ (if truthy liveness_endpoint then [(True, ''health reporter'')] else [])
     @ [(True, ''admission insights chain''),
        (True, ''admission validating configuration manager''),
        (True, ''admission mutating configuration manager''),
        (True, ''admission webhook server''),
        (True, ''resource observer''),
        (True, ''namespace observer'')]
     @ (if command then [(True, ''the command'')] else [(True, ''multidimensional multitasker'')])"

text \<open>
  \<^verbatim>\<open>
  if threading.current_thread() is threading.main_thread():
      try:
          loop.add_signal_handler(signal.SIGINT, signal_flag.set_result, signal.SIGINT)
          loop.add_signal_handler(signal.SIGTERM, signal_flag.set_result, signal.SIGTERM)
      except NotImplementedError:
          logger.warning("OS signals are ignored: can't add signal handler in Windows.")
  else:
      logger.warning("OS signals are ignored: running not in the main thread.")
  \<close>
\<close>

definition add_signal_handlers :: "bool \<Rightarrow> bool \<Rightarrow> event list" where
  "add_signal_handlers main_thread supported =
     (if main_thread then
        (if supported then [AddSignalHandler SIGINT, AddSignalHandler SIGTERM]
         else [LogWarning ''OS signals are ignored: can't add signal handler in Windows.''])
      else [LogWarning ''OS signals are ignored: running not in the main thread.''])"

text \<open>
  The function itself. Its first statements:
  \<^verbatim>\<open>
  if namespaces and namespace:
      raise TypeError("Either namespaces= or namespace= can be passed. Got both.")
  elif namespace:
      warnings.warn("namespace= is deprecated; use namespaces=[...]", DeprecationWarning)
      namespaces = [namespace]

  if clusterwide and namespaces:
      raise TypeError("The operator can be either cluster-wide or namespaced, not both.")
  if not clusterwide and not namespaces:
      warnings.warn("Absence of either namespaces or cluster-wide flag will become an error soon."
                    " For now, switching to the cluster-wide mode for backward compatibility.",
                    FutureWarning)
      clusterwide = True
  \<close>
  then the settings, the tasks, \<open>await asyncio.sleep(0)\<close> (which gives the tasks
  control once and is taken to return), and the signal handlers.
\<close>

definition spawn_tasks :: "options \<Rightarrow> state \<Rightarrow> (exn + spawned) \<times> state" where
  "spawn_tasks opts s =
     (if opt_namespaces opts \<noteq> [] \<and> truthy (opt_namespace opts) then
        (Inl (TypeError ''Either namespaces= or namespace= can be passed. Got both.''), s)
      else
        let (namespaces1, s1) =
              (if truthy (opt_namespace opts) then
                 ([the (opt_namespace opts)],
                  emit [Warn ''DeprecationWarning''
                          ''namespace= is deprecated; use namespaces=[...]''] s)
               else (opt_namespaces opts, s))
        in if opt_clusterwide opts \<and> namespaces1 \<noteq> [] then
             (Inl (TypeError ''The operator can be either cluster-wide or namespaced, not both.''), s1)
           else
             let (clusterwide1, s2) =
                   (if \<not> opt_clusterwide opts \<and> namespaces1 = [] then
                      (True,
                       emit [Warn ''FutureWarning''
                               (''Absence of either namespaces or cluster-wide flag will become an error soon.''
                                @ '' For now, switching to the cluster-wide mode for backward compatibility.'')]
                         s1)
                    else (opt_clusterwide opts, s1));
                 settings1 = map_kwargs clusterwide1 (opt_peering_name opts)
                               (opt_standalone opts) (opt_priority opts) (opt_settings opts);
                 (system, s3) = create_all system_task_names s2;
                 (root, s4) = create_all (root_task_names (opt_liveness_endpoint opts) (opt_command opts)) s3;
                 s5 = emit (add_signal_handlers (in_main_thread opts) (signals_supported opts)) s4
             in (Inr \<lparr>spawned_system = system, spawned_root = root, spawned_settings = settings1,
                       spawned_namespaces = namespaces1\<rparr>, s5))"

text \<open>Whether an effect is the creation of a task.\<close>

fun is_creation :: "event \<Rightarrow> bool" where
  "is_creation (CreateTask _ _) = True"
| "is_creation (CreateGuardedTask _ _) = True"
| "is_creation _ = False"

subsection \<open>The helpers of \<open>aiotasks\<close>\<close>

text \<open>
  What the tasks do is not decided by the supervisor; it is given to it:
  whether \<open>run_tasks\<close> is cancelled from outside while it waits for the first
  completion; which tasks finish by themselves in that wait, and how; whether
  \<open>run_tasks\<close> is cancelled while it waits for the hung tasks; which tasks finish by
  themselves within that wait's timeout, and how; and how a task ends once it is
  cancelled (\<open>None\<close>: it never ends).
\<close>

record world =
  cancelled_at_first :: bool
  first_done :: "task \<Rightarrow> result option"
  cancelled_at_hung :: bool
  hung_done :: "task \<Rightarrow> result option"
  on_cancel :: "task \<Rightarrow> result option"

text \<open>The tasks \<open>ts\<close> that have not finished yet end as \<open>ends\<close> says.\<close>

definition finish :: "(task \<Rightarrow> result option) \<Rightarrow> task list \<Rightarrow> state \<Rightarrow> state" where
  "finish ends ts s =
     s\<lparr>results := (\<lambda>t. if t \<in> set ts \<and> results s t = None then ends t else results s t)\<rparr>"

text \<open>
  Modelled from the spec: \<open>aiotasks.wait\<close> is not in the sources. It is the
  "await completion of a set of tasks" of the spec: it "waits for the first completion
  among" the tasks (\<open>FIRST_COMPLETED\<close>), or for all of them
  (\<open>ALL_COMPLETED\<close>, the default), "with a bounded timeout" when one is given, and
  returns the tasks that are done and those still pending; when "this wait is itself
  cancelled" it raises the cancellation. Without a timeout it does not return before
  the completion it waits for; with no tasks at all it has nothing to wait for. The two
  sets of tasks it returns are lists here, each in the order of the argument.
\<close>

definition aiotasks_wait ::
  "bool \<Rightarrow> (task \<Rightarrow> result option) \<Rightarrow> task list \<Rightarrow> real option \<Rightarrow> return_when \<Rightarrow> state
     \<Rightarrow> ((exn + task list \<times> task list) \<times> state) option" where
  "aiotasks_wait cancelled ends tasks timeout rw s =
     (let s0 = emit [Wait tasks timeout rw] s in
      if cancelled then Some (Inl CancelledError, s0)
      else
        let s1 = finish ends tasks s0;
            done = [t \<leftarrow> tasks. results s1 t \<noteq> None];
            pending = [t \<leftarrow> tasks. results s1 t = None]
        in if pending \<noteq> [] \<and> timeout = None \<and> (rw = ALL_COMPLETED \<or> done = []) then None
           else Some (Inr (done, pending), emit (map Awaited done) s1))"

text \<open>
  Modelled from the spec: \<open>aiotasks.stop\<close> is not in the sources. "Each
  cancellation pass awaits full completion of the targeted set with periodic progress
  logging", and "every Task, once cancelled, is always awaited to completion before the
  orchestrator proceeds": it cancels every task given, returns once all of them are
  done, and does not return while one of them is not. Its first result is the set of
  the tasks it has stopped (the second, those left, is empty).
\<close>

definition aiotasks_stop ::
  "(task \<Rightarrow> result option) \<Rightarrow> string \<Rightarrow> task list \<Rightarrow> bool \<Rightarrow> real option \<Rightarrow> state
     \<Rightarrow> ((task list \<times> task list) \<times> state) option" where
  "aiotasks_stop ends title tasks cancelled interval s =
     (let s0 = emit (Stop title tasks cancelled interval # map Cancel tasks) s;
          s1 = finish ends tasks s0
      in if \<exists>t \<in> set tasks. results s1 t = None then None
         else Some ((tasks, []), emit (map Awaited tasks) s1))"

text \<open>
  Modelled from the spec: \<open>aiotasks.all_tasks\<close> is not in the sources. It is the
  "diffing of all currently running tasks against a pre-startup snapshot": the tasks of
  the loop that have not finished and are not among the ignored ones.
\<close>

definition aiotasks_all_tasks :: "task list \<Rightarrow> state \<Rightarrow> task list" where
  "aiotasks_all_tasks ignored s = [t \<leftarrow> population s. results s t = None \<and> t \<notin> set ignored]"

text \<open>
  Modelled from the spec: \<open>aiotasks.reraise\<close> is not in the sources. "If any
  collected task ended in error, surface that error to the caller (first one found
  ...); otherwise return normally", where "cancellation [is] not an error".
\<close>

fun aiotasks_reraise :: "state \<Rightarrow> task list \<Rightarrow> result" where
  "aiotasks_reraise s [] = Returned"
| "aiotasks_reraise s (t # ts) =
     (case results s t of
        Some (Raised e) \<Rightarrow> if e = CancelledError then aiotasks_reraise s ts else Raised e
      | _ \<Rightarrow> aiotasks_reraise s ts)"

subsection \<open>\<open>run_tasks\<close>\<close>

text \<open>
  \<^verbatim>\<open>
  try:
      tasks = system_tasks + root_tasks
      tasks_done, tasks_pending = await aiotasks.wait(tasks, return_when=asyncio.FIRST_COMPLETED)
  except asyncio.CancelledError:
      await aiotasks.stop(root_tasks, title="Root", logger=logger, cancelled=True, interval=10)
      await aiotasks.stop(system_tasks, title="System", logger=logger, cancelled=True, interval=10)
      hung_tasks = await aiotasks.all_tasks(ignored=ignored)
      await aiotasks.stop(hung_tasks, title="Hung", logger=logger, cancelled=True, interval=1)
      raise

  root_pending = [task for task in tasks_pending if task not in system_tasks]
  root_cancelled, _ = await aiotasks.stop(root_pending, title="Root", logger=logger)
  system_pending = [task for task in tasks_pending if task not in root_tasks]
  system_cancelled, _ = await aiotasks.stop(system_pending, title="System", logger=logger)
  tasks_cancelled = root_cancelled | system_cancelled

  hung_tasks = await aiotasks.all_tasks(ignored=ignored)
  try:
      hung_done, hung_pending = await aiotasks.wait(hung_tasks, timeout=5)
  except asyncio.CancelledError:
      await aiotasks.stop(hung_tasks, title="Hung", logger=logger, cancelled=True, interval=1)
      raise

  hung_cancelled, _ = await aiotasks.stop(hung_pending, title="Hung", logger=logger, interval=1)
  await aiotasks.reraise(tasks_done | tasks_cancelled | hung_done | hung_cancelled)
  \<close>
  The sets of tasks are lists here, and a union of sets is the lists one after the
  other.
\<close>

definition run_tasks ::
  "world \<Rightarrow> task list \<Rightarrow> task list \<Rightarrow> task list \<Rightarrow> state \<Rightarrow> (result \<times> state) option" where
  "run_tasks w system_tasks root_tasks ignored s =
     do {
       let tasks = system_tasks @ root_tasks;
       (waited, s1) \<leftarrow> aiotasks_wait (cancelled_at_first w) (first_done w) tasks None FIRST_COMPLETED s;
       case waited of
         Inl e \<Rightarrow>
           if e = CancelledError then do {
             (_, s2) \<leftarrow> aiotasks_stop (on_cancel w) ''Root'' root_tasks True (Some 10) s1;
             (_, s3) \<leftarrow> aiotasks_stop (on_cancel w) ''System'' system_tasks True (Some 10) s2;
             let hung_tasks = aiotasks_all_tasks ignored s3;
             (_, s4) \<leftarrow> aiotasks_stop (on_cancel w) ''Hung'' hung_tasks True (Some 1) s3;
             Some (Raised e, s4)
           }
           else Some (Raised e, s1)
       | Inr (tasks_done, tasks_pending) \<Rightarrow> do {
           let root_pending = [task \<leftarrow> tasks_pending. task \<notin> set system_tasks];
           ((root_cancelled, _), s2) \<leftarrow> aiotasks_stop (on_cancel w) ''Root'' root_pending False None s1;
           let system_pending = [task \<leftarrow> tasks_pending. task \<notin> set root_tasks];
           ((system_cancelled, _), s3) \<leftarrow>
              aiotasks_stop (on_cancel w) ''System'' system_pending False None s2;
           let tasks_cancelled = root_cancelled @ system_cancelled;
           let hung_tasks = aiotasks_all_tasks ignored s3;
           (hung_waited, s4) \<leftarrow>
              aiotasks_wait (cancelled_at_hung w) (hung_done w) hung_tasks (Some 5) ALL_COMPLETED s3;
           case hung_waited of
             Inl e \<Rightarrow>
               if e = CancelledError then do {
                 (_, s5) \<leftarrow> aiotasks_stop (on_cancel w) ''Hung'' hung_tasks True (Some 1) s4;
                 Some (Raised e, s5)
               }
               else Some (Raised e, s4)
           | Inr (hung_finished, hung_pending) \<Rightarrow> do {
               ((hung_cancelled, _), s5) \<leftarrow>
                  aiotasks_stop (on_cancel w) ''Hung'' hung_pending False (Some 1) s4;
               Some (aiotasks_reraise s5 (tasks_done @ tasks_cancelled @ hung_finished @ hung_cancelled),
                     s5)
             }
         }
     }"

text \<open>
  \<open>operator\<close>: the snapshot of the tasks there are, \<open>spawn_tasks\<close>, then
  \<open>run_tasks\<close> on what it returned.
  \<^verbatim>\<open>
  existing_tasks = await aiotasks.all_tasks()
  system_tasks, root_tasks = await spawn_tasks(...)
  await run_tasks(system_tasks, root_tasks, ignored=existing_tasks)
  \<close>
\<close>

definition operator :: "world \<Rightarrow> options \<Rightarrow> state \<Rightarrow> (result \<times> state) option" where
  "operator w opts s =
     (let existing_tasks = aiotasks_all_tasks [] s in
      case spawn_tasks opts s of
        (Inl e, s1) \<Rightarrow> Some (Raised e, s1)
      | (Inr sp, s1) \<Rightarrow> run_tasks w (spawned_system sp) (spawned_root sp) existing_tasks s1)"

subsection \<open>The signal flag and \<open>_stop_flag_checker\<close>\<close>








text \<open>
  The tasks created under a name, in a list of effects, and the messages logged at the
  level of \<open>logger.info\<close>.
\<close>

fun created :: "string \<Rightarrow> event list \<Rightarrow> task list" where
  "created nm [] = []"
| "created nm (CreateTask t n # es) = (if n = nm then t # created nm es else created nm es)"
| "created nm (CreateGuardedTask t n # es) = (if n = nm then t # created nm es else created nm es)"
| "created nm (_ # es) = created nm es"

fun logged :: "event list \<Rightarrow> string list" where
  "logged [] = []"
| "logged (LogInfo m # es) = m # logged es"
| "logged (_ # es) = logged es"

subsection \<open>\<open>_startup_cleanup_activities\<close>\<close>

text \<open>
  What happens to the task of the startup and cleanup activities while it runs: how the
  startup activity ends, how \<open>aioadapters.raise_flag\<close> ends, whether the task is
  ever woken from its sleep (it sleeps on a fresh \<open>asyncio.Event\<close> that nobody
  sets, so only its cancellation wakes it, and the code swallows that one), whether it is
  cancelled again while it waits for the root tasks or for the system tasks, how the
  tasks it waits for end (\<open>None\<close>: never), and how the cleanup activity and
  \<open>vault.close()\<close> end.
\<close>

record happenings =
  startup_ends :: result
  ready_ends :: result
  woken :: bool
  cancelled_at_roots :: bool
  cancelled_at_systems :: bool
  exits :: "task \<Rightarrow> result option"
  cleanup_ends :: result
  close_ends :: result

text \<open>
  The coroutine, statement by statement; \<open>current_task\<close> is
  \<open>asyncio.current_task()\<close>, and the two lists are what the live views hold when
  the task is woken. The result is how the coroutine ends, \<open>None\<close> when it never
  does (it sleeps forever, or waits for a task that never ends).
  \<^verbatim>\<open>
  logger.debug(f"Starting Kopf {versions.version or '(unknown version)'}.")
  try:
      await activities.run_activity(..., activity=causes.Activity.STARTUP, ...)
  except asyncio.CancelledError:
      logger.warning("Startup activity is only partially executed due to cancellation.")
      raise
  started_flag.set()
  await aioadapters.raise_flag(ready_flag)
  try:
      await asyncio.Event().wait()
  except asyncio.CancelledError:
      pass
  try:
      current_task = asyncio.current_task()
      awaited_root_tasks = {task for task in root_tasks if task is not current_task}
      await aiotasks.wait(awaited_root_tasks)
      awaited_system_tasks = {task for task in system_tasks if task is not current_task}
      await aiotasks.wait(awaited_system_tasks)
  except asyncio.CancelledError:
      logger.warning("Cleanup activity is not executed at all due to cancellation.")
      raise
  try:
      await activities.run_activity(..., activity=causes.Activity.CLEANUP, ...)
      await vault.close()
  except asyncio.CancelledError:
      logger.warning("Cleanup activity is only partially executed due to cancellation.")
      raise
  \<close>
\<close>

definition startup_cleanup_activities ::
  "happenings \<Rightarrow> task list \<Rightarrow> task list \<Rightarrow> task \<Rightarrow> state \<Rightarrow> result option \<times> state" where
  "startup_cleanup_activities h system_tasks root_tasks current_task s =
     (let s0 = emit [LogDebug ''Starting Kopf.'', RunActivity STARTUP] s in
      case startup_ends h of
        Raised e \<Rightarrow>
          (if e = CancelledError then
             (Some (Raised e),
              emit [LogWarning ''Startup activity is only partially executed due to cancellation.''] s0)
           else (Some (Raised e), s0))
      | Returned \<Rightarrow>
          (let s1 = emit [ActivityDone STARTUP, SetStarted, RaiseReady] s0 in
           case ready_ends h of
             Raised e \<Rightarrow> (Some (Raised e), s1)
           | Returned \<Rightarrow>
               (if \<not> woken h then (None, s1)
                else
                  (let awaited_root_tasks = [task \<leftarrow> root_tasks. task \<noteq> current_task] in
                   case aiotasks_wait (cancelled_at_roots h) (exits h) awaited_root_tasks None
                          ALL_COMPLETED s1 of
                     None \<Rightarrow> (None, emit [Wait awaited_root_tasks None ALL_COMPLETED] s1)
                   | Some (Inl e, s2) \<Rightarrow>
                       (if e = CancelledError then
                          (Some (Raised e),
                           emit [LogWarning ''Cleanup activity is not executed at all due to cancellation.''] s2)
                        else (Some (Raised e), s2))
                   | Some (Inr _, s2) \<Rightarrow>
                       (let awaited_system_tasks = [task \<leftarrow> system_tasks. task \<noteq> current_task] in
                        case aiotasks_wait (cancelled_at_systems h) (exits h) awaited_system_tasks None
                               ALL_COMPLETED s2 of
                          None \<Rightarrow> (None, emit [Wait awaited_system_tasks None ALL_COMPLETED] s2)
                        | Some (Inl e, s3) \<Rightarrow>
                            (if e = CancelledError then
                               (Some (Raised e),
                                emit [LogWarning ''Cleanup activity is not executed at all due to cancellation.''] s3)
                             else (Some (Raised e), s3))
                        | Some (Inr _, s3) \<Rightarrow>
                            (let s4 = emit [RunActivity CLEANUP] s3 in
                             case cleanup_ends h of
                               Raised e \<Rightarrow>
                                 (if e = CancelledError then
                                    (Some (Raised e),
                                     emit [LogWarning ''Cleanup activity is only partially executed due to cancellation.''] s4)
                                  else (Some (Raised e), s4))
                             | Returned \<Rightarrow>
                                 (let s5 = emit [ActivityDone CLEANUP, VaultClose] s4 in
                                  case close_ends h of
                                    Raised e \<Rightarrow>
                                      (if e = CancelledError then
                                         (Some (Raised e),
                                          emit [LogWarning ''Cleanup activity is only partially executed due to cancellation.''] s5)
                                       else (Some (Raised e), s5))
                                  | Returned \<Rightarrow> (Some Returned, s5))))))))"

text \<open>The effects of one run of the coroutine, without those that were there before.\<close>

definition new_trace ::
  "happenings \<Rightarrow> task list \<Rightarrow> task list \<Rightarrow> task \<Rightarrow> state \<Rightarrow> event list" where
  "new_trace h system_tasks root_tasks current_task s =
     drop (length (trace s))
       (trace (snd (startup_cleanup_activities h system_tasks root_tasks current_task s)))"

text \<open>
  Modelled from the spec: \<open>aiotasks.create_guarded_task\<close> is not in the sources.
  Its task is the "Guarded Task Wrapper" of the spec (4.2): its "execution first
  suspends on \<open>Gate.wait()\<close>; if cancelled while waiting, the body never runs and
  the task completes as cancelled; once the gate opens, it runs the body". The gate is
  the \<open>started_flag\<close>, "initially closed", which \<open>started_flag.set()\<close> opens;
  \<open>past\<close> is what has happened so far.
\<close>

datatype guarded = Waiting | Cancelled | Running

definition guarded_task :: "event list \<Rightarrow> bool \<Rightarrow> guarded" where
  "guarded_task past cancelled =
     (if SetStarted \<in> set past then Running else if cancelled then Cancelled else Waiting)"

text \<open>
  Every task of \<open>ts\<close> that has not ended yet does end; the state after a wait for
  all of \<open>ts\<close> that was not cancelled; the state after a startup that succeeded.
\<close>

definition all_exit :: "(task \<Rightarrow> result option) \<Rightarrow> task list \<Rightarrow> state \<Rightarrow> bool" where
  "all_exit ends ts s = (\<forall>t \<in> set ts. results s t = None \<longrightarrow> ends t \<noteq> None)"

definition waited :: "(task \<Rightarrow> result option) \<Rightarrow> task list \<Rightarrow> state \<Rightarrow> state" where
  "waited ends ts s =
     emit (map Awaited ts) (finish ends ts (emit [Wait ts None ALL_COMPLETED] s))"

definition started :: "state \<Rightarrow> state" where
  "started s = emit [ActivityDone STARTUP, SetStarted, RaiseReady]
                 (emit [LogDebug ''Starting Kopf.'', RunActivity STARTUP] s)"

text \<open>The tasks that were cancelled, in the order of the calls of \<open>task.cancel()\<close>.\<close>

fun cancels :: "event list \<Rightarrow> task list" where
  "cancels [] = []"
| "cancels (Cancel t # es) = t # cancels es"
| "cancels (_ # es) = cancels es"

text \<open>
  The timeouts and intervals of the calls of \<open>aiotasks.wait\<close> and
  \<open>aiotasks.stop\<close>, in their order: for a wait its timeout, for a stop its title and
  its logging interval.
\<close>

fun timings :: "event list \<Rightarrow> (string \<times> real option) list" where
  "timings [] = []"
| "timings (Wait _ timeout _ # es) = (''wait'', timeout) # timings es"
| "timings (Stop title _ _ interval # es) = (title, interval) # timings es"
| "timings (_ # es) = timings es"

text \<open>A task has failed when it ended with an exception that is not its cancellation.\<close>

definition failed :: "state \<Rightarrow> task \<Rightarrow> bool" where
  "failed s t = (case results s t of Some (Raised e) \<Rightarrow> e \<noteq> CancelledError | _ \<Rightarrow> False)"

text \<open>
  In a list of effects, the first \<open>b\<close> comes after an \<open>a\<close>.
\<close>

definition precedes :: "event \<Rightarrow> event \<Rightarrow> event list \<Rightarrow> bool" where
  "precedes a b es = (b \<in> set es \<and> a \<in> set (takeWhile (\<lambda>e. e \<noteq> b) es))"

text \<open>Example values for the concrete instances below.\<close>

definition settings_example :: "real option \<Rightarrow> operator_settings" where
  "settings_example timeout =
     \<lparr>peering = \<lparr>clusterwide = False, mandatory = False, name = ''default'',
                  standalone = False, priority = 0\<rparr>,
      process = \<lparr>ultimate_exiting_timeout = timeout\<rparr>\<rparr>"

definition options_example :: "bool \<Rightarrow> string list \<Rightarrow> string option \<Rightarrow> options" where
  "options_example cw nss ns =
     \<lparr>opt_settings = settings_example None, opt_standalone = None, opt_priority = None,
      opt_peering_name = None, opt_liveness_endpoint = None, opt_clusterwide = cw,
      opt_namespaces = nss, opt_namespace = ns, opt_command = False,
      in_main_thread = True, signals_supported = True\<rparr>"

definition state_example :: "task list \<Rightarrow> state" where
  "state_example ts = \<lparr>population = ts, results = (\<lambda>t. None), trace = []\<rparr>"

text \<open>
  A world in which nothing cancels the supervisor, the tasks \<open>done\<close> finish by
  themselves (in the first wait, or in the sweep if they are waited for there), each as
  given, and every task, once cancelled, ends as \<open>how\<close> says.
\<close>

definition world_example :: "(task \<times> result) list \<Rightarrow> (task \<Rightarrow> result option) \<Rightarrow> world" where
  "world_example done how =
     \<lparr>cancelled_at_first = False, first_done = map_of done, cancelled_at_hung = False,
      hung_done = map_of done, on_cancel = how\<rparr>"

text \<open>
  The state in which \<open>spawn_tasks\<close> leaves an empty loop, when it is called in the
  cluster-wide mode with no liveness endpoint and no command, in the main thread.
\<close>

definition spawned_state :: state where
  "spawned_state =
     \<lparr>population = [1, 2, 3, 4, 5, 6, 7, 8, 9, 10, 11, 12, 13], results = (\<lambda>t. None),
      trace =
       [CreateTask 1 ''stop-flag checker'',
        CreateTask 2 ''ultimate termination'',
        CreateTask 3 ''startup/cleanup activities'',
        CreateGuardedTask 4 ''daemon killer'',
        CreateGuardedTask 5 ''credentials retriever'',
        CreateGuardedTask 6 ''poster of events'',
        CreateGuardedTask 7 ''admission insights chain'',
        CreateGuardedTask 8 ''admission validating configuration manager'',
        CreateGuardedTask 9 ''admission mutating configuration manager'',
        CreateGuardedTask 10 ''admission webhook server'',
        CreateGuardedTask 11 ''resource observer'',
        CreateGuardedTask 12 ''namespace observer'',
        CreateGuardedTask 13 ''multidimensional multitasker'',
        AddSignalHandler SIGINT, AddSignalHandler SIGTERM]\<rparr>"

text \<open>
  Happenings in which the startup activity ends as given, the task is woken, it is
  cancelled in its waits as given, every task it waits for ends cancelled, and the
  cleanup and the closing of the vault succeed.
\<close>

definition happenings_example :: "result \<Rightarrow> bool \<Rightarrow> bool \<Rightarrow> happenings" where
  "happenings_example startup at_roots at_systems =
     \<lparr>startup_ends = startup, ready_ends = Returned, woken = True,
      cancelled_at_roots = at_roots, cancelled_at_systems = at_systems,
      exits = (\<lambda>t. Some (Raised CancelledError)), cleanup_ends = Returned,
      close_ends = Returned\<rparr>"

section \<open>Properties\<close>

subsection \<open>The watchdog\<close>

text \<open>
  C10. If the ultimate-exiting timeout setting is None, the cancelled watchdog arms no
  forced-kill timer, even when the external stop flag is unset (or absent): it returns
  having done nothing, so nothing will ever kill the process by force in that
  configuration.
\<close>

theorem ultimate_termination_no_timeout:
  "ultimate_exiting_timeout (process settings) = None \<Longrightarrow>
     ultimate_termination settings stop_flag True = Some (Returned, [])"
  by (simp add: ultimate_termination_def)

theorem ultimate_termination_no_timeout_witness:
  "ultimate_exiting_timeout
      (process \<lparr>peering = \<lparr>clusterwide = True, mandatory = False, name = ''default'',
                           standalone = False, priority = 0\<rparr>,
                process = \<lparr>ultimate_exiting_timeout = None\<rparr>\<rparr>) = None
   \<and> ultimate_termination
       \<lparr>peering = \<lparr>clusterwide = True, mandatory = False, name = ''default'',
                   standalone = False, priority = 0\<rparr>,
        process = \<lparr>ultimate_exiting_timeout = None\<rparr>\<rparr> (Some False) True
     = Some (Returned, [])"
  using ultimate_termination_no_timeout
    [of "\<lparr>peering = \<lparr>clusterwide = True, mandatory = False, name = ''default'',
                      standalone = False, priority = 0\<rparr>,
           process = \<lparr>ultimate_exiting_timeout = None\<rparr>\<rparr>" "Some False"]
  by simp

text \<open>
  C6 (as amended). When the watchdog is cancelled: if the external stop flag is set, it
  arms no forced-kill timer; if the flag is not set (or absent), it arms a delayed
  SIGKILL to its own thread after \<open>settings.process.ultimate_exiting_timeout\<close> when
  that setting is not None, and arms nothing when it is None.
\<close>

theorem ultimate_termination_flag:
  "(check_flag stop_flag \<longrightarrow> ultimate_termination settings stop_flag True = Some (Returned, []))
   \<and> (\<not> check_flag stop_flag \<longrightarrow>
        ultimate_termination settings stop_flag True =
          Some (Returned, case ultimate_exiting_timeout (process settings) of
                            Some delay \<Rightarrow> [CallLater delay SIGKILL] | None \<Rightarrow> []))"
  by (simp add: ultimate_termination_def split: option.splits)

theorem ultimate_termination_flag_witness:
  "ultimate_termination (settings_example (Some 30)) (Some True) True = Some (Returned, [])
   \<and> ultimate_termination (settings_example (Some 30)) (Some False) True
       = Some (Returned, [CallLater 30 SIGKILL])
   \<and> ultimate_termination (settings_example (Some 30)) None True
       = Some (Returned, [CallLater 30 SIGKILL])"
  using ultimate_termination_flag [of "Some True" "settings_example (Some 30)"]
    ultimate_termination_flag [of "Some False" "settings_example (Some 30)"]
    ultimate_termination_flag [of None "settings_example (Some 30)"]
  by (simp add: check_flag_def settings_example_def)

text \<open>
  The claim as it stands, "if the stop flag is not set, it arms a delayed SIGKILL", fails
  where the timeout is None: the flag is there and not set, the watchdog is cancelled,
  and it arms nothing.
\<close>

theorem ultimate_termination_unset_flag_counterexample:
  "\<not> check_flag (Some False)
   \<and> ultimate_termination (settings_example None) (Some False) True = Some (Returned, [])"
  by (simp add: ultimate_termination_def check_flag_def settings_example_def)

subsection \<open>The scope options of \<open>spawn_tasks\<close>\<close>

lemma map_kwargs_clusterwide:
  "clusterwide (peering (map_kwargs cw pn st pr x)) = cw"
  by (simp add: map_kwargs_def Let_def split: option.splits)

lemma map_kwargs_process: "process (map_kwargs cw pn st pr x) = process x"
  by (simp add: map_kwargs_def Let_def split: option.splits)

lemma create_all_trace_mono:
  "set (trace s) \<subseteq> set (trace (snd (create_all xs s)))"
proof (induction xs arbitrary: s)
  case Nil
  show ?case by simp
next
  case (Cons x xs)
  obtain g nm where x: "x = (g, nm)" by (cases x)
  let ?s1 = "snd (if g then create_guarded_task nm s else create_task nm s)"
  have "set (trace s) \<subseteq> set (trace ?s1)"
    by (auto simp add: create_task_def create_guarded_task_def emit_def)
  also have "\<dots> \<subseteq> set (trace (snd (create_all xs ?s1)))" by (rule Cons.IH)
  finally show ?case by (simp add: x split_def Let_def)
qed

text \<open>
  C7. \<open>spawn_tasks\<close> raises a \<open>TypeError\<close> when both the cluster-wide flag and
  namespaces are given, and when both \<open>namespaces=\<close> and the deprecated
  \<open>namespace=\<close> are given, in both cases before it has had any effect at all (the
  state it leaves is the state it found). When none of the cluster-wide flag,
  \<open>namespaces=\<close> and \<open>namespace=\<close> is given, it does not fail: it warns
  (a \<open>FutureWarning\<close>) and goes on in the cluster-wide mode. And whenever it
  raises, no task has been created.
\<close>

theorem spawn_tasks_scope:
  "(opt_clusterwide opts \<and> opt_namespaces opts \<noteq> [] \<longrightarrow>
      (\<exists>msg. spawn_tasks opts s = (Inl (TypeError msg), s)))
   \<and> (opt_namespaces opts \<noteq> [] \<and> truthy (opt_namespace opts) \<longrightarrow>
      (\<exists>msg. spawn_tasks opts s = (Inl (TypeError msg), s)))
   \<and> (\<not> opt_clusterwide opts \<and> opt_namespaces opts = [] \<and> \<not> truthy (opt_namespace opts) \<longrightarrow>
      (\<exists>sp s'. spawn_tasks opts s = (Inr sp, s')
         \<and> clusterwide (peering (spawned_settings sp))
         \<and> spawned_namespaces sp = []
         \<and> (\<exists>msg. Warn ''FutureWarning'' msg \<in> set (trace s'))))
   \<and> (\<forall>e s'. spawn_tasks opts s = (Inl e, s') \<longrightarrow>
         population s' = population s
         \<and> filter is_creation (trace s') = filter is_creation (trace s))"
proof (intro conjI impI allI)
  assume "opt_clusterwide opts \<and> opt_namespaces opts \<noteq> []"
  then show "\<exists>msg. spawn_tasks opts s = (Inl (TypeError msg), s)"
    by (simp add: spawn_tasks_def)
next
  assume "opt_namespaces opts \<noteq> [] \<and> truthy (opt_namespace opts)"
  then show "\<exists>msg. spawn_tasks opts s = (Inl (TypeError msg), s)"
    by (simp add: spawn_tasks_def)
next
  assume a: "\<not> opt_clusterwide opts \<and> opt_namespaces opts = [] \<and> \<not> truthy (opt_namespace opts)"
  let ?w = "Warn ''FutureWarning''
               (''Absence of either namespaces or cluster-wide flag will become an error soon.''
                @ '' For now, switching to the cluster-wide mode for backward compatibility.'')"
  let ?s2 = "emit [?w] s"
  let ?s3 = "snd (create_all system_task_names ?s2)"
  let ?s4 = "snd (create_all (root_task_names (opt_liveness_endpoint opts) (opt_command opts)) ?s3)"
  have "?w \<in> set (trace ?s2)" by (simp add: emit_def)
  also have "set (trace ?s2) \<subseteq> set (trace ?s3)" by (rule create_all_trace_mono)
  also have "\<dots> \<subseteq> set (trace ?s4)" by (rule create_all_trace_mono)
  finally have w: "?w \<in> set (trace ?s4)" .
  show "\<exists>sp s'. spawn_tasks opts s = (Inr sp, s')
         \<and> clusterwide (peering (spawned_settings sp))
         \<and> spawned_namespaces sp = []
         \<and> (\<exists>msg. Warn ''FutureWarning'' msg \<in> set (trace s'))"
    using a w
    by (auto simp add: spawn_tasks_def split_def Let_def map_kwargs_clusterwide emit_def
        simp del: append.simps)
next
  fix e s'
  assume "spawn_tasks opts s = (Inl e, s')"
  then show "population s' = population s"
    by (auto simp add: spawn_tasks_def split_def Let_def emit_def split: if_splits)
next
  fix e s'
  assume "spawn_tasks opts s = (Inl e, s')"
  then show "filter is_creation (trace s') = filter is_creation (trace s)"
    by (auto simp add: spawn_tasks_def split_def Let_def emit_def split: if_splits)
qed

theorem spawn_tasks_scope_witness:
  "(\<exists>msg. spawn_tasks (options_example True [''ns''] None) (state_example [])
       = (Inl (TypeError msg), state_example []))
   \<and> (\<exists>msg. spawn_tasks (options_example False [''ns''] (Some ''old'')) (state_example [])
       = (Inl (TypeError msg), state_example []))
   \<and> (\<exists>sp s'. spawn_tasks (options_example False [] None) (state_example []) = (Inr sp, s')
         \<and> clusterwide (peering (spawned_settings sp))
         \<and> spawned_namespaces sp = []
         \<and> (\<exists>msg. Warn ''FutureWarning'' msg \<in> set (trace s')))
   \<and> fst (spawn_tasks (options_example True [] (Some ''old'')) (state_example []))
       = Inl (TypeError ''The operator can be either cluster-wide or namespaced, not both.'')
   \<and> population (snd (spawn_tasks (options_example True [] (Some ''old'')) (state_example []))) = []
   \<and> spawned_system (projr (fst (spawn_tasks (options_example False [] None) (state_example []))))
       = [1, 2, 3, 4, 5]"
proof -
  have a: "\<exists>msg. spawn_tasks (options_example True [''ns''] None) (state_example [])
       = (Inl (TypeError msg), state_example [])"
    using spawn_tasks_scope [of "options_example True [''ns''] None" "state_example []"]
    by (simp add: options_example_def)
  have b: "\<exists>msg. spawn_tasks (options_example False [''ns''] (Some ''old'')) (state_example [])
       = (Inl (TypeError msg), state_example [])"
    using spawn_tasks_scope [of "options_example False [''ns''] (Some ''old'')" "state_example []"]
    by (simp add: options_example_def truthy_def)
  have c: "\<exists>sp s'. spawn_tasks (options_example False [] None) (state_example []) = (Inr sp, s')
         \<and> clusterwide (peering (spawned_settings sp))
         \<and> spawned_namespaces sp = []
         \<and> (\<exists>msg. Warn ''FutureWarning'' msg \<in> set (trace s'))"
    using spawn_tasks_scope [of "options_example False [] None" "state_example []"]
    by (simp add: options_example_def truthy_def)
  have d: "spawn_tasks (options_example True [] (Some ''old'')) (state_example [])
       = (Inl (TypeError ''The operator can be either cluster-wide or namespaced, not both.''),
          emit [Warn ''DeprecationWarning'' ''namespace= is deprecated; use namespaces=[...]'']
            (state_example []))"
    by (simp add: spawn_tasks_def options_example_def truthy_def Let_def)
  have e: "population (snd (spawn_tasks (options_example True [] (Some ''old'')) (state_example []))) = []"
    using spawn_tasks_scope [of "options_example True [] (Some ''old'')" "state_example []"] d
    by (simp add: state_example_def)
  have f: "spawned_system (projr (fst (spawn_tasks (options_example False [] None) (state_example []))))
       = [1, 2, 3, 4, 5]"
    by (simp add: spawn_tasks_def options_example_def state_example_def truthy_def emit_def
      create_task_def create_guarded_task_def new_task_def system_task_names_def
      root_task_names_def map_kwargs_def settings_example_def add_signal_handlers_def Let_def)
  from a b c d e f show ?thesis by simp
qed

subsection \<open>What the helpers do to the state\<close>

lemma emit_simps [simp]:
  "results (emit es s) = results s"
  "population (emit es s) = population s"
  "trace (emit es s) = trace s @ es"
  by (simp_all add: emit_def)

lemma finish_simps [simp]:
  "population (finish ends ts s) = population s"
  "trace (finish ends ts s) = trace s"
  by (simp_all add: finish_def)

lemma finish_results:
  "results (finish ends ts s) t = (if t \<in> set ts \<and> results s t = None then ends t else results s t)"
  by (simp add: finish_def)

lemma stop_Some:
  "aiotasks_stop ends title ts c i s = Some (r, s') \<longleftrightarrow>
     (\<forall>t \<in> set ts. results s t = None \<longrightarrow> ends t \<noteq> None)
     \<and> r = (ts, [])
     \<and> s' = emit (map Awaited ts) (finish ends ts (emit (Stop title ts c i # map Cancel ts) s))"
  by (auto simp add: aiotasks_stop_def Let_def finish_results)

lemma stop_total:
  "\<forall>t. ends t \<noteq> None \<Longrightarrow> \<exists>s'. aiotasks_stop ends title ts c i s = Some ((ts, []), s')"
  by (simp add: stop_Some)

lemma stop_effect:
  assumes "aiotasks_stop ends title ts c i s = Some (r, s')"
  shows "r = (ts, [])"
    and "population s' = population s"
    and "trace s' = trace s @ Stop title ts c i # map Cancel ts @ map Awaited ts"
    and "results s' t = (if t \<in> set ts \<and> results s t = None then ends t else results s t)"
    and "t \<in> set ts \<Longrightarrow> results s' t \<noteq> None"
  using assms by (auto simp add: stop_Some finish_results)

lemma wait_cancelled:
  "aiotasks_wait True ends ts timeout rw s = Some (Inl CancelledError, emit [Wait ts timeout rw] s)"
  by (simp add: aiotasks_wait_def)

lemma wait_Inl:
  "aiotasks_wait c ends ts timeout rw s = Some (Inl e, s') \<Longrightarrow>
     c \<and> e = CancelledError \<and> s' = emit [Wait ts timeout rw] s"
  by (auto simp add: aiotasks_wait_def Let_def split: if_splits)

lemma wait_Inr_state:
  assumes "aiotasks_wait c ends ts timeout rw s = Some (Inr (d, p), s')"
  shows "\<not> c"
    and "s' = emit (map Awaited d) (finish ends ts (emit [Wait ts timeout rw] s))"
    and "d = [t \<leftarrow> ts. results (finish ends ts (emit [Wait ts timeout rw] s)) t \<noteq> None]"
    and "p = [t \<leftarrow> ts. results (finish ends ts (emit [Wait ts timeout rw] s)) t = None]"
  using assms by (auto simp add: aiotasks_wait_def Let_def split: if_splits)

lemma wait_Inr:
  assumes "aiotasks_wait c ends ts timeout rw s = Some (Inr (d, p), s')"
  shows "\<not> c"
    and "d = [t \<leftarrow> ts. results s' t \<noteq> None]"
    and "p = [t \<leftarrow> ts. results s' t = None]"
    and "population s' = population s"
    and "trace s' = trace s @ Wait ts timeout rw # map Awaited d"
    and "results s' t = (if t \<in> set ts \<and> results s t = None then ends t else results s t)"
proof -
  note st = wait_Inr_state [OF assms]
  show "\<not> c" by (rule st(1))
  have r: "results s' = results (finish ends ts (emit [Wait ts timeout rw] s))"
    by (subst st(2)) simp
  show "d = [t \<leftarrow> ts. results s' t \<noteq> None]" by (simp only: r) (rule st(3))
  show "p = [t \<leftarrow> ts. results s' t = None]" by (simp only: r) (rule st(4))
  show "population s' = population s" by (subst st(2)) simp
  show "trace s' = trace s @ Wait ts timeout rw # map Awaited d" by (subst st(2)) simp
  show "results s' t = (if t \<in> set ts \<and> results s t = None then ends t else results s t)"
    by (simp only: r) (simp add: finish_results)
qed

lemma wait_first_total:
  assumes "t0 \<in> set ts" "results s t0 \<noteq> None \<or> ends t0 \<noteq> None"
  shows "\<exists>d p s'. aiotasks_wait False ends ts None FIRST_COMPLETED s = Some (Inr (d, p), s')"
proof -
  have "results (finish ends ts (emit [Wait ts None FIRST_COMPLETED] s)) t0 \<noteq> None"
    using assms by (auto simp add: finish_results)
  with assms(1)
  have "[t \<leftarrow> ts. results (finish ends ts (emit [Wait ts None FIRST_COMPLETED] s)) t \<noteq> None] \<noteq> []"
    unfolding filter_empty_conv by blast
  then show ?thesis by (simp add: aiotasks_wait_def Let_def)
qed

lemma wait_timeout_total:
  "\<exists>d p s'. aiotasks_wait False ends ts (Some x) rw s = Some (Inr (d, p), s')"
  by (simp add: aiotasks_wait_def Let_def)

lemma run_tasks_cancelled_elim:
  assumes "run_tasks w system_tasks root_tasks ignored s = Some (res, s')"
    and "cancelled_at_first w"
  obtains s1 s2 s3 r2 r3 r4 where
    "s1 = emit [Wait (system_tasks @ root_tasks) None FIRST_COMPLETED] s"
    "aiotasks_stop (on_cancel w) ''Root'' root_tasks True (Some 10) s1 = Some (r2, s2)"
    "aiotasks_stop (on_cancel w) ''System'' system_tasks True (Some 10) s2 = Some (r3, s3)"
    "aiotasks_stop (on_cancel w) ''Hung'' (aiotasks_all_tasks ignored s3) True (Some 1) s3 = Some (r4, s')"
    "res = Raised CancelledError"
  using assms
  by (auto simp add: run_tasks_def wait_cancelled split: bind_splits)

subsection \<open>The three ways through \<open>run_tasks\<close>\<close>

lemma run_tasks_cancelled_eq:
  assumes "cancelled_at_first w"
    and "aiotasks_stop (on_cancel w) ''Root'' root_tasks True (Some 10)
           (emit [Wait (system_tasks @ root_tasks) None FIRST_COMPLETED] s) = Some (r2, s2)"
    and "aiotasks_stop (on_cancel w) ''System'' system_tasks True (Some 10) s2 = Some (r3, s3)"
    and "aiotasks_stop (on_cancel w) ''Hung'' (aiotasks_all_tasks ignored s3) True (Some 1) s3
           = Some (r4, s4)"
  shows "run_tasks w system_tasks root_tasks ignored s = Some (Raised CancelledError, s4)"
  using assms by (simp add: run_tasks_def wait_cancelled split: prod.splits)

lemma run_tasks_normal_eq:
  assumes "\<not> cancelled_at_first w" "\<not> cancelled_at_hung w"
    and "aiotasks_wait False (first_done w) (system_tasks @ root_tasks) None FIRST_COMPLETED s
           = Some (Inr (tasks_done, tasks_pending), s1)"
    and "aiotasks_stop (on_cancel w) ''Root'' [t \<leftarrow> tasks_pending. t \<notin> set system_tasks] False None s1
           = Some (r2, s2)"
    and "aiotasks_stop (on_cancel w) ''System'' [t \<leftarrow> tasks_pending. t \<notin> set root_tasks] False None s2
           = Some (r3, s3)"
    and "aiotasks_wait False (hung_done w) (aiotasks_all_tasks ignored s3) (Some 5) ALL_COMPLETED s3
           = Some (Inr (hung_finished, hung_pending), s4)"
    and "aiotasks_stop (on_cancel w) ''Hung'' hung_pending False (Some 1) s4 = Some (r5, s5)"
  shows "run_tasks w system_tasks root_tasks ignored s =
           Some (aiotasks_reraise s5
                   (tasks_done @ ([t \<leftarrow> tasks_pending. t \<notin> set system_tasks]
                                  @ [t \<leftarrow> tasks_pending. t \<notin> set root_tasks])
                    @ hung_finished @ hung_pending), s5)"
proof -
  have "r2 = ([t \<leftarrow> tasks_pending. t \<notin> set system_tasks], [])"
    "r3 = ([t \<leftarrow> tasks_pending. t \<notin> set root_tasks], [])"
    "r5 = (hung_pending, [])"
    using assms(4,5,7) by (auto dest: stop_effect(1))
  then show ?thesis
    using assms by (simp add: run_tasks_def)
qed

lemma run_tasks_swept_eq:
  assumes "\<not> cancelled_at_first w" "cancelled_at_hung w"
    and "aiotasks_wait False (first_done w) (system_tasks @ root_tasks) None FIRST_COMPLETED s
           = Some (Inr (tasks_done, tasks_pending), s1)"
    and "aiotasks_stop (on_cancel w) ''Root'' [t \<leftarrow> tasks_pending. t \<notin> set system_tasks] False None s1
           = Some (r2, s2)"
    and "aiotasks_stop (on_cancel w) ''System'' [t \<leftarrow> tasks_pending. t \<notin> set root_tasks] False None s2
           = Some (r3, s3)"
    and "aiotasks_stop (on_cancel w) ''Hung'' (aiotasks_all_tasks ignored s3) True (Some 1)
           (emit [Wait (aiotasks_all_tasks ignored s3) (Some 5) ALL_COMPLETED] s3) = Some (r5, s5)"
  shows "run_tasks w system_tasks root_tasks ignored s = Some (Raised CancelledError, s5)"
  using assms by (simp add: run_tasks_def wait_cancelled split: prod.splits)

text \<open>Every way in which \<open>run_tasks\<close> returns is one of the three above.\<close>

lemma run_tasks_paths:
  assumes run: "run_tasks w system_tasks root_tasks ignored s = Some (res, s')"
  shows "(cancelled_at_first w \<and> res = Raised CancelledError \<and>
          (\<exists>s2 s3.
             aiotasks_stop (on_cancel w) ''Root'' root_tasks True (Some 10)
               (emit [Wait (system_tasks @ root_tasks) None FIRST_COMPLETED] s)
               = Some ((root_tasks, []), s2)
             \<and> aiotasks_stop (on_cancel w) ''System'' system_tasks True (Some 10) s2
               = Some ((system_tasks, []), s3)
             \<and> aiotasks_stop (on_cancel w) ''Hung'' (aiotasks_all_tasks ignored s3) True (Some 1) s3
               = Some ((aiotasks_all_tasks ignored s3, []), s')))
       \<or> (\<not> cancelled_at_first w \<and>
          (\<exists>tasks_done tasks_pending s1 s2 s3.
             aiotasks_wait False (first_done w) (system_tasks @ root_tasks) None FIRST_COMPLETED s
               = Some (Inr (tasks_done, tasks_pending), s1)
             \<and> aiotasks_stop (on_cancel w) ''Root'' [t \<leftarrow> tasks_pending. t \<notin> set system_tasks]
                 False None s1
               = Some (([t \<leftarrow> tasks_pending. t \<notin> set system_tasks], []), s2)
             \<and> aiotasks_stop (on_cancel w) ''System'' [t \<leftarrow> tasks_pending. t \<notin> set root_tasks]
                 False None s2
               = Some (([t \<leftarrow> tasks_pending. t \<notin> set root_tasks], []), s3)
             \<and> ((cancelled_at_hung w \<and> res = Raised CancelledError \<and>
                  aiotasks_stop (on_cancel w) ''Hung'' (aiotasks_all_tasks ignored s3) True (Some 1)
                    (emit [Wait (aiotasks_all_tasks ignored s3) (Some 5) ALL_COMPLETED] s3)
                    = Some ((aiotasks_all_tasks ignored s3, []), s'))
                \<or> (\<not> cancelled_at_hung w \<and>
                   (\<exists>hung_finished hung_pending s4.
                      aiotasks_wait False (hung_done w) (aiotasks_all_tasks ignored s3) (Some 5)
                        ALL_COMPLETED s3 = Some (Inr (hung_finished, hung_pending), s4)
                      \<and> aiotasks_stop (on_cancel w) ''Hung'' hung_pending False (Some 1) s4
                        = Some ((hung_pending, []), s')
                      \<and> res = aiotasks_reraise s'
                          (tasks_done @ ([t \<leftarrow> tasks_pending. t \<notin> set system_tasks]
                                         @ [t \<leftarrow> tasks_pending. t \<notin> set root_tasks])
                           @ hung_finished @ hung_pending))))))"
proof (cases "cancelled_at_first w")
  case True
  let ?s1 = "emit [Wait (system_tasks @ root_tasks) None FIRST_COMPLETED] s"
  obtain r2 s2 where st2:
    "aiotasks_stop (on_cancel w) ''Root'' root_tasks True (Some 10) ?s1 = Some (r2, s2)"
  proof (cases "aiotasks_stop (on_cancel w) ''Root'' root_tasks True (Some 10) ?s1")
    case None
    with True have "run_tasks w system_tasks root_tasks ignored s = None"
      by (simp add: run_tasks_def wait_cancelled)
    with run show ?thesis by simp
  next
    case (Some a)
    with that show ?thesis by (cases a) auto
  qed
  obtain r3 s3 where st3:
    "aiotasks_stop (on_cancel w) ''System'' system_tasks True (Some 10) s2 = Some (r3, s3)"
  proof (cases "aiotasks_stop (on_cancel w) ''System'' system_tasks True (Some 10) s2")
    case None
    with True st2 have "run_tasks w system_tasks root_tasks ignored s = None"
      by (simp add: run_tasks_def wait_cancelled split: prod.splits)
    with run show ?thesis by simp
  next
    case (Some a)
    with that show ?thesis by (cases a) auto
  qed
  obtain r4 s4 where st4:
    "aiotasks_stop (on_cancel w) ''Hung'' (aiotasks_all_tasks ignored s3) True (Some 1) s3
       = Some (r4, s4)"
  proof (cases "aiotasks_stop (on_cancel w) ''Hung'' (aiotasks_all_tasks ignored s3) True (Some 1) s3")
    case None
    with True st2 st3 have "run_tasks w system_tasks root_tasks ignored s = None"
      by (simp add: run_tasks_def wait_cancelled split: prod.splits)
    with run show ?thesis by simp
  next
    case (Some a)
    with that show ?thesis by (cases a) auto
  qed
  have "run_tasks w system_tasks root_tasks ignored s = Some (Raised CancelledError, s4)"
    using True st2 st3 st4 by (rule run_tasks_cancelled_eq)
  with run have "res = Raised CancelledError" "s' = s4" by simp_all
  moreover have "r2 = (root_tasks, [])" "r3 = (system_tasks, [])"
    "r4 = (aiotasks_all_tasks ignored s3, [])"
    using st2 st3 st4 by (auto dest: stop_effect(1))
  ultimately show ?thesis using True st2 st3 st4 by auto
next
  case False
  let ?tasks = "system_tasks @ root_tasks"
  obtain tasks_done tasks_pending s1 where w1:
    "aiotasks_wait False (first_done w) ?tasks None FIRST_COMPLETED s
       = Some (Inr (tasks_done, tasks_pending), s1)"
  proof (cases "aiotasks_wait False (first_done w) ?tasks None FIRST_COMPLETED s")
    case None
    with False have "run_tasks w system_tasks root_tasks ignored s = None"
      by (simp add: run_tasks_def)
    with run show ?thesis by simp
  next
    case (Some a)
    obtain x s1 where a: "a = (x, s1)" by (cases a)
    show ?thesis
    proof (cases x)
      case (Inl e)
      with Some a show ?thesis by (auto dest: wait_Inl)
    next
      case (Inr dp)
      with Some a that show ?thesis by (cases dp) auto
    qed
  qed
  let ?rp = "[t \<leftarrow> tasks_pending. t \<notin> set system_tasks]"
  let ?sp = "[t \<leftarrow> tasks_pending. t \<notin> set root_tasks]"
  obtain r2 s2 where st2:
    "aiotasks_stop (on_cancel w) ''Root'' ?rp False None s1 = Some (r2, s2)"
  proof (cases "aiotasks_stop (on_cancel w) ''Root'' ?rp False None s1")
    case None
    with False w1 have "run_tasks w system_tasks root_tasks ignored s = None"
      by (simp add: run_tasks_def)
    with run show ?thesis by simp
  next
    case (Some a)
    with that show ?thesis by (cases a) auto
  qed
  have r2: "r2 = (?rp, [])" using st2 by (rule stop_effect(1))
  obtain r3 s3 where st3:
    "aiotasks_stop (on_cancel w) ''System'' ?sp False None s2 = Some (r3, s3)"
  proof (cases "aiotasks_stop (on_cancel w) ''System'' ?sp False None s2")
    case None
    with False w1 st2 r2 have "run_tasks w system_tasks root_tasks ignored s = None"
      by (simp add: run_tasks_def)
    with run show ?thesis by simp
  next
    case (Some a)
    with that show ?thesis by (cases a) auto
  qed
  have r3: "r3 = (?sp, [])" using st3 by (rule stop_effect(1))
  let ?hung = "aiotasks_all_tasks ignored s3"
  show ?thesis
  proof (cases "cancelled_at_hung w")
    case True
    let ?s4 = "emit [Wait ?hung (Some 5) ALL_COMPLETED] s3"
    obtain r5 s5 where st5:
      "aiotasks_stop (on_cancel w) ''Hung'' ?hung True (Some 1) ?s4 = Some (r5, s5)"
    proof (cases "aiotasks_stop (on_cancel w) ''Hung'' ?hung True (Some 1) ?s4")
      case None
      with False True w1 st2 r2 st3 r3 have "run_tasks w system_tasks root_tasks ignored s = None"
        by (simp add: run_tasks_def wait_cancelled)
      with run show ?thesis by simp
    next
      case (Some a)
      with that show ?thesis by (cases a) auto
    qed
    have "run_tasks w system_tasks root_tasks ignored s = Some (Raised CancelledError, s5)"
      using False True w1 st2 st3 st5 by (rule run_tasks_swept_eq)
    with run have "res = Raised CancelledError" "s' = s5" by simp_all
    moreover have "r5 = (?hung, [])" using st5 by (rule stop_effect(1))
    ultimately show ?thesis using False True w1 st2 r2 st3 r3 st5 by auto
  next
    case nc: False
    obtain hf hp s4 where w4:
      "aiotasks_wait False (hung_done w) ?hung (Some 5) ALL_COMPLETED s3 = Some (Inr (hf, hp), s4)"
      using wait_timeout_total by blast
    obtain r5 s5 where st5:
      "aiotasks_stop (on_cancel w) ''Hung'' hp False (Some 1) s4 = Some (r5, s5)"
    proof (cases "aiotasks_stop (on_cancel w) ''Hung'' hp False (Some 1) s4")
      case None
      with False nc w1 st2 r2 st3 r3 w4 have "run_tasks w system_tasks root_tasks ignored s = None"
        by (simp add: run_tasks_def)
      with run show ?thesis by simp
    next
      case (Some a)
      with that show ?thesis by (cases a) auto
    qed
    have "run_tasks w system_tasks root_tasks ignored s =
           Some (aiotasks_reraise s5 (tasks_done @ (?rp @ ?sp) @ hf @ hp), s5)"
      using False nc w1 st2 st3 w4 st5 by (rule run_tasks_normal_eq)
    with run have "res = aiotasks_reraise s5 (tasks_done @ (?rp @ ?sp) @ hf @ hp)" "s' = s5"
      by auto
    moreover have "r5 = (hp, [])" using st5 by (rule stop_effect(1))
    ultimately show ?thesis using False nc w1 st2 r2 st3 r3 w4 st5 by auto
  qed
qed

lemma reraise_Returned:
  "aiotasks_reraise s ts = Returned \<longleftrightarrow> (\<forall>t \<in> set ts. \<not> failed s t)"
  by (induction ts) (auto simp add: failed_def split: option.splits result.splits)

lemma reraise_Raised:
  "aiotasks_reraise s ts = Raised e \<Longrightarrow>
     e \<noteq> CancelledError \<and> (\<exists>t \<in> set ts. results s t = Some (Raised e))"
  by (induction ts) (auto split: option.splits result.splits if_splits)

lemma run_tasks_normal_run:
  fixes ignored :: "task list"
  assumes nc1: "\<not> cancelled_at_first w" and nc2: "\<not> cancelled_at_hung w"
    and tot: "\<forall>t. on_cancel w t \<noteq> None"
    and disj: "set system_tasks \<inter> set root_tasks = {}"
    and t0: "t0 \<in> set (system_tasks @ root_tasks)"
    and done0: "results s t0 \<noteq> None \<or> first_done w t0 \<noteq> None"
  defines "tasks \<equiv> system_tasks @ root_tasks"
  defines "tasks_done \<equiv> [t \<leftarrow> tasks. results s t \<noteq> None \<or> first_done w t \<noteq> None]"
  defines "tasks_pending \<equiv> [t \<leftarrow> tasks. results s t = None \<and> first_done w t = None]"
  defines "root_pending \<equiv> [t \<leftarrow> tasks_pending. t \<notin> set system_tasks]"
  defines "system_pending \<equiv> [t \<leftarrow> tasks_pending. t \<notin> set root_tasks]"
  defines "hung_tasks \<equiv> [t \<leftarrow> population s. results s t = None \<and> t \<notin> set tasks \<and> t \<notin> set ignored]"
  defines "hung_finished \<equiv> [t \<leftarrow> hung_tasks. hung_done w t \<noteq> None]"
  defines "hung_pending \<equiv> [t \<leftarrow> hung_tasks. hung_done w t = None]"
  shows "\<exists>s'. run_tasks w system_tasks root_tasks ignored s =
            Some (aiotasks_reraise s'
                    (tasks_done @ (root_pending @ system_pending) @ hung_finished @ hung_pending), s')
          \<and> population s' = population s
          \<and> trace s' = trace s
              @ Wait tasks None FIRST_COMPLETED # map Awaited tasks_done
              @ Stop ''Root'' root_pending False None # map Cancel root_pending @ map Awaited root_pending
              @ Stop ''System'' system_pending False None # map Cancel system_pending
                  @ map Awaited system_pending
              @ Wait hung_tasks (Some 5) ALL_COMPLETED # map Awaited hung_finished
              @ Stop ''Hung'' hung_pending False (Some 1) # map Cancel hung_pending
                  @ map Awaited hung_pending
          \<and> (\<forall>t. results s' t =
                (if results s t \<noteq> None then results s t
                 else if t \<in> set tasks then
                   (case first_done w t of Some r \<Rightarrow> Some r | None \<Rightarrow> on_cancel w t)
                 else if t \<in> set hung_tasks then
                   (case hung_done w t of Some r \<Rightarrow> Some r | None \<Rightarrow> on_cancel w t)
                 else None))"
proof -
  from wait_first_total [of t0 "system_tasks @ root_tasks" s "first_done w", OF t0 done0]
  obtain d p s1 where w1:
    "aiotasks_wait False (first_done w) (system_tasks @ root_tasks) None FIRST_COMPLETED s
       = Some (Inr (d, p), s1)" by blast
  note e1 = wait_Inr [OF w1]
  have r1: "\<And>t. results s1 t = (if t \<in> set tasks \<and> results s t = None then first_done w t
                                    else results s t)"
    using e1(6) by (simp add: tasks_def)
  have d: "d = tasks_done"
    unfolding e1(2) tasks_done_def tasks_def [symmetric]
    by (rule filter_cong) (auto simp add: r1)
  have p: "p = tasks_pending"
    unfolding e1(3) tasks_pending_def tasks_def [symmetric]
    by (rule filter_cong) (auto simp add: r1)
  from stop_total [OF tot]
  obtain s2 where st2:
    "aiotasks_stop (on_cancel w) ''Root'' [t \<leftarrow> p. t \<notin> set system_tasks] False None s1
       = Some (([t \<leftarrow> p. t \<notin> set system_tasks], []), s2)" by blast
  note e2 = stop_effect [OF st2]
  from stop_total [OF tot]
  obtain s3 where st3:
    "aiotasks_stop (on_cancel w) ''System'' [t \<leftarrow> p. t \<notin> set root_tasks] False None s2
       = Some (([t \<leftarrow> p. t \<notin> set root_tasks], []), s3)" by blast
  note e3 = stop_effect [OF st3]
  have mem: "\<And>t. t \<in> set tasks \<longleftrightarrow> t \<in> set system_tasks \<or> t \<in> set root_tasks"
    by (auto simp add: tasks_def)
  have r3: "\<And>t. results s3 t =
                (if results s t \<noteq> None then results s t
                 else if t \<in> set tasks then
                   (case first_done w t of Some r \<Rightarrow> Some r | None \<Rightarrow> on_cancel w t)
                 else None)"
    using disj
    by (auto simp add: e3(4) e2(4) r1 p tasks_pending_def mem split: option.splits)
  have r3_None: "\<And>t. results s3 t = None \<longleftrightarrow> results s t = None \<and> t \<notin> set tasks"
    using tot by (auto simp add: r3 split: option.splits)
  have hung: "aiotasks_all_tasks ignored s3 = hung_tasks"
    by (simp add: aiotasks_all_tasks_def hung_tasks_def e3(2) e2(2) e1(4) r3_None conj_ac)
  obtain hf hp s4 where w4:
    "aiotasks_wait False (hung_done w) (aiotasks_all_tasks ignored s3) (Some 5) ALL_COMPLETED s3
       = Some (Inr (hf, hp), s4)"
    using wait_timeout_total by blast
  note e4 = wait_Inr [OF w4]
  have hmem: "\<And>t. t \<in> set hung_tasks \<Longrightarrow> results s3 t = None"
    by (simp add: hung_tasks_def r3_None)
  have r4: "\<And>t. results s4 t = (if t \<in> set hung_tasks then hung_done w t else results s3 t)"
    using hmem by (auto simp add: e4(6) hung)
  have hf: "hf = hung_finished"
    unfolding e4(2) hung hung_finished_def
    by (rule filter_cong) (auto simp add: r4)
  have hp: "hp = hung_pending"
    unfolding e4(3) hung hung_pending_def
    by (rule filter_cong) (auto simp add: r4)
  from stop_total [OF tot]
  obtain s5 where st5:
    "aiotasks_stop (on_cancel w) ''Hung'' hp False (Some 1) s4 = Some ((hp, []), s5)" by blast
  note e5 = stop_effect [OF st5]
  have run: "run_tasks w system_tasks root_tasks ignored s =
           Some (aiotasks_reraise s5
                   (d @ ([t \<leftarrow> p. t \<notin> set system_tasks] @ [t \<leftarrow> p. t \<notin> set root_tasks])
                    @ hf @ hp), s5)"
    using nc1 nc2 w1 st2 st3 w4 st5 by (rule run_tasks_normal_eq)
  have pop: "population s5 = population s"
    by (simp add: e5(2) e4(4) e3(2) e2(2) e1(4))
  have tr: "trace s5 = trace s
              @ Wait tasks None FIRST_COMPLETED # map Awaited tasks_done
              @ Stop ''Root'' root_pending False None # map Cancel root_pending @ map Awaited root_pending
              @ Stop ''System'' system_pending False None # map Cancel system_pending
                  @ map Awaited system_pending
              @ Wait hung_tasks (Some 5) ALL_COMPLETED # map Awaited hung_finished
              @ Stop ''Hung'' hung_pending False (Some 1) # map Cancel hung_pending
                  @ map Awaited hung_pending"
    by (simp add: e5(3) e4(5) e3(3) e2(3) e1(5) hung
        d [symmetric] p [symmetric] hf [symmetric] hp [symmetric]
        root_pending_def system_pending_def tasks_def)
  have r5: "\<And>t. results s5 t =
                (if results s t \<noteq> None then results s t
                 else if t \<in> set tasks then
                   (case first_done w t of Some r \<Rightarrow> Some r | None \<Rightarrow> on_cancel w t)
                 else if t \<in> set hung_tasks then
                   (case hung_done w t of Some r \<Rightarrow> Some r | None \<Rightarrow> on_cancel w t)
                 else None)"
    by (auto simp add: e5(4) r4 r3 hp hung_pending_def hung_tasks_def split: option.splits)
  show ?thesis
    using run pop tr r5
    by (simp add: d p hf hp root_pending_def system_pending_def)
qed

lemma cancels_append [simp]: "cancels (xs @ ys) = cancels xs @ cancels ys"
  by (induction xs rule: cancels.induct) simp_all

lemma cancels_map_Cancel [simp]: "cancels (map Cancel ts) = ts"
  by (induction ts) simp_all

lemma cancels_map_Awaited [simp]: "cancels (map Awaited ts) = []"
  by (induction ts) simp_all

lemma timings_append [simp]: "timings (xs @ ys) = timings xs @ timings ys"
  by (induction xs rule: timings.induct) simp_all

lemma timings_map_Cancel [simp]: "timings (map Cancel ts) = []"
  by (induction ts) simp_all

lemma timings_map_Awaited [simp]: "timings (map Awaited ts) = []"
  by (induction ts) simp_all

lemma stop_keeps:
  "aiotasks_stop ends title ts c i s = Some (r, s') \<Longrightarrow> results s t \<noteq> None \<Longrightarrow>
     results s' t = results s t"
  by (auto simp add: stop_Some finish_results)

lemma wait_keeps:
  "aiotasks_wait c ends ts timeout rw s = Some (Inr (d, p), s') \<Longrightarrow> results s t \<noteq> None \<Longrightarrow>
     results s' t = results s t"
  by (auto simp add: wait_Inr(6))

lemma takeWhile_skip:
  "b \<notin> set xs \<Longrightarrow> takeWhile (\<lambda>e. e \<noteq> b) (xs @ ys) = xs @ takeWhile (\<lambda>e. e \<noteq> b) ys"
  by (induction xs) auto

lemma precedes_block:
  assumes "b \<notin> set xs" "a \<in> set ys" "b \<notin> set ys" "b \<in> set zs"
  shows "precedes a b (xs @ ys @ zs @ rest)"
proof -
  have "takeWhile (\<lambda>e. e \<noteq> b) (xs @ ys @ zs @ rest)
          = xs @ ys @ takeWhile (\<lambda>e. e \<noteq> b) (zs @ rest)"
    using assms(1,3) by (simp add: takeWhile_skip)
  with assms(2,4) show ?thesis by (simp add: precedes_def)
qed

lemma run_tasks_cancelled_run:
  fixes ignored :: "task list"
  assumes c: "cancelled_at_first w"
    and run: "run_tasks w system_tasks root_tasks ignored s = Some (res, s')"
  defines "hung_tasks \<equiv> [t \<leftarrow> population s. results s t = None \<and> t \<notin> set root_tasks
                                \<and> t \<notin> set system_tasks \<and> t \<notin> set ignored]"
  shows "res = Raised CancelledError"
    and "trace s' = trace s
           @ Wait (system_tasks @ root_tasks) None FIRST_COMPLETED
           # Stop ''Root'' root_tasks True (Some 10) # map Cancel root_tasks @ map Awaited root_tasks
           @ Stop ''System'' system_tasks True (Some 10) # map Cancel system_tasks
               @ map Awaited system_tasks
           @ Stop ''Hung'' hung_tasks True (Some 1) # map Cancel hung_tasks @ map Awaited hung_tasks"
    and "\<forall>t \<in> set root_tasks \<union> set system_tasks \<union> set hung_tasks. results s' t \<noteq> None"
proof -
  from run_tasks_paths [OF run] c obtain s2 s3 where
    st2: "aiotasks_stop (on_cancel w) ''Root'' root_tasks True (Some 10)
               (emit [Wait (system_tasks @ root_tasks) None FIRST_COMPLETED] s)
               = Some ((root_tasks, []), s2)"
    and st3: "aiotasks_stop (on_cancel w) ''System'' system_tasks True (Some 10) s2
               = Some ((system_tasks, []), s3)"
    and st4: "aiotasks_stop (on_cancel w) ''Hung'' (aiotasks_all_tasks ignored s3) True (Some 1) s3
               = Some ((aiotasks_all_tasks ignored s3, []), s')"
    and res: "res = Raised CancelledError"
    by auto
  note e2 = stop_effect [OF st2] and e3 = stop_effect [OF st3] and e4 = stop_effect [OF st4]
  show "res = Raised CancelledError" by (rule res)
  have r3: "results s3 t = None \<longleftrightarrow>
               results s t = None \<and> t \<notin> set root_tasks \<and> t \<notin> set system_tasks" for t
  proof (cases "t \<in> set system_tasks")
    case True
    then show ?thesis using e3(5) [of t] by simp
  next
    case sys: False
    then have eq: "results s3 t = results s2 t" by (simp add: e3(4))
    show ?thesis
    proof (cases "t \<in> set root_tasks")
      case True
      then show ?thesis using e2(5) [of t] eq by simp
    next
      case False
      with sys eq show ?thesis by (simp add: e2(4))
    qed
  qed
  have hung: "aiotasks_all_tasks ignored s3 = hung_tasks"
    by (simp add: aiotasks_all_tasks_def hung_tasks_def e3(2) e2(2) r3 conj_ac)
  show "trace s' = trace s
           @ Wait (system_tasks @ root_tasks) None FIRST_COMPLETED
           # Stop ''Root'' root_tasks True (Some 10) # map Cancel root_tasks @ map Awaited root_tasks
           @ Stop ''System'' system_tasks True (Some 10) # map Cancel system_tasks
               @ map Awaited system_tasks
           @ Stop ''Hung'' hung_tasks True (Some 1) # map Cancel hung_tasks @ map Awaited hung_tasks"
    by (simp add: e4(3) e3(3) e2(3) hung)
  show "\<forall>t \<in> set root_tasks \<union> set system_tasks \<union> set hung_tasks. results s' t \<noteq> None"
  proof
    fix t assume "t \<in> set root_tasks \<union> set system_tasks \<union> set hung_tasks"
    then consider "t \<in> set hung_tasks" | "t \<in> set root_tasks \<or> t \<in> set system_tasks" by auto
    then show "results s' t \<noteq> None"
    proof cases
      case 1
      then show ?thesis using e4(5) [of t] by (simp add: hung)
    next
      case 2
      then have "results s3 t \<noteq> None" by (auto simp add: r3)
      then show ?thesis using stop_keeps [OF st4, of t] by simp
    qed
  qed
qed

lemma run_tasks_cancels_order:
  assumes run: "run_tasks w system_tasks root_tasks ignored s = Some (res, s')"
    and disj: "set system_tasks \<inter> set root_tasks = {}"
  shows "\<exists>rs ss hs. cancels (trace s') = cancels (trace s) @ rs @ ss @ hs
           \<and> set rs \<subseteq> set root_tasks \<and> set ss \<subseteq> set system_tasks
           \<and> set hs \<inter> (set root_tasks \<union> set system_tasks) = {}"
proof (cases "cancelled_at_first w")
  case True
  let ?hung = "[t \<leftarrow> population s. results s t = None \<and> t \<notin> set root_tasks
                                \<and> t \<notin> set system_tasks \<and> t \<notin> set ignored]"
  have "cancels (trace s') = cancels (trace s) @ root_tasks @ system_tasks @ ?hung"
    by (simp add: run_tasks_cancelled_run(2) [OF True run])
  moreover have "set ?hung \<inter> (set root_tasks \<union> set system_tasks) = {}" by auto
  ultimately show ?thesis by blast
next
  case False
  from run_tasks_paths [OF run] False obtain tasks_done tasks_pending s1 s2 s3 where
    w1: "aiotasks_wait False (first_done w) (system_tasks @ root_tasks) None FIRST_COMPLETED s
               = Some (Inr (tasks_done, tasks_pending), s1)"
    and st2: "aiotasks_stop (on_cancel w) ''Root'' [t \<leftarrow> tasks_pending. t \<notin> set system_tasks]
                 False None s1
               = Some (([t \<leftarrow> tasks_pending. t \<notin> set system_tasks], []), s2)"
    and st3: "aiotasks_stop (on_cancel w) ''System'' [t \<leftarrow> tasks_pending. t \<notin> set root_tasks]
                 False None s2
               = Some (([t \<leftarrow> tasks_pending. t \<notin> set root_tasks], []), s3)"
    and rest: "(cancelled_at_hung w \<and> res = Raised CancelledError \<and>
                  aiotasks_stop (on_cancel w) ''Hung'' (aiotasks_all_tasks ignored s3) True (Some 1)
                    (emit [Wait (aiotasks_all_tasks ignored s3) (Some 5) ALL_COMPLETED] s3)
                    = Some ((aiotasks_all_tasks ignored s3, []), s'))
                \<or> (\<not> cancelled_at_hung w \<and>
                   (\<exists>hung_finished hung_pending s4.
                      aiotasks_wait False (hung_done w) (aiotasks_all_tasks ignored s3) (Some 5)
                        ALL_COMPLETED s3 = Some (Inr (hung_finished, hung_pending), s4)
                      \<and> aiotasks_stop (on_cancel w) ''Hung'' hung_pending False (Some 1) s4
                        = Some ((hung_pending, []), s')
                      \<and> res = aiotasks_reraise s'
                          (tasks_done @ ([t \<leftarrow> tasks_pending. t \<notin> set system_tasks]
                                         @ [t \<leftarrow> tasks_pending. t \<notin> set root_tasks])
                           @ hung_finished @ hung_pending)))"
    by auto
  let ?rp = "[t \<leftarrow> tasks_pending. t \<notin> set system_tasks]"
  let ?sp = "[t \<leftarrow> tasks_pending. t \<notin> set root_tasks]"
  let ?hung = "aiotasks_all_tasks ignored s3"
  note e1 = wait_Inr [OF w1] and e2 = stop_effect [OF st2] and e3 = stop_effect [OF st3]
  have pend: "set tasks_pending \<subseteq> set system_tasks \<union> set root_tasks"
    by (auto simp add: e1(3))
  have rp: "set ?rp \<subseteq> set root_tasks" and sp: "set ?sp \<subseteq> set system_tasks"
    using pend by auto
  have fin: "results s3 t \<noteq> None" if "t \<in> set root_tasks \<union> set system_tasks" for t
  proof (cases "t \<in> set tasks_pending")
    case True
    with that disj have "t \<in> set ?rp \<or> t \<in> set ?sp" by auto
    then show ?thesis
    proof
      assume "t \<in> set ?rp"
      then have "results s2 t \<noteq> None" by (rule e2(5))
      then show ?thesis using stop_keeps [OF st3, of t] by simp
    next
      assume "t \<in> set ?sp"
      then show ?thesis by (rule e3(5))
    qed
  next
    case False
    with that have "results s1 t \<noteq> None" by (auto simp add: e1(3))
    then have "results s2 t \<noteq> None" using stop_keeps [OF st2, of t] by simp
    then show ?thesis using stop_keeps [OF st3, of t] by simp
  qed
  have hung: "set ?hung \<inter> (set root_tasks \<union> set system_tasks) = {}"
    using fin by (fastforce simp add: aiotasks_all_tasks_def)
  have tr3: "cancels (trace s3) = cancels (trace s) @ ?rp @ ?sp"
    by (simp add: e3(3) e2(3) e1(5))
  from rest show ?thesis
  proof
    assume a: "cancelled_at_hung w \<and> res = Raised CancelledError \<and>
                  aiotasks_stop (on_cancel w) ''Hung'' ?hung True (Some 1)
                    (emit [Wait ?hung (Some 5) ALL_COMPLETED] s3) = Some ((?hung, []), s')"
    then have "cancels (trace s') = cancels (trace s) @ ?rp @ ?sp @ ?hung"
      using tr3 by (simp add: stop_effect(3) [of "on_cancel w" "''Hung''" ?hung True "Some 1"
            "emit [Wait ?hung (Some 5) ALL_COMPLETED] s3" _ s'])
    with rp sp hung show ?thesis by blast
  next
    assume "\<not> cancelled_at_hung w \<and>
                   (\<exists>hung_finished hung_pending s4.
                      aiotasks_wait False (hung_done w) ?hung (Some 5)
                        ALL_COMPLETED s3 = Some (Inr (hung_finished, hung_pending), s4)
                      \<and> aiotasks_stop (on_cancel w) ''Hung'' hung_pending False (Some 1) s4
                        = Some ((hung_pending, []), s')
                      \<and> res = aiotasks_reraise s'
                          (tasks_done @ (?rp @ ?sp) @ hung_finished @ hung_pending))"
    then obtain hf hp s4 where
      w4: "aiotasks_wait False (hung_done w) ?hung (Some 5) ALL_COMPLETED s3
             = Some (Inr (hf, hp), s4)"
      and st5: "aiotasks_stop (on_cancel w) ''Hung'' hp False (Some 1) s4 = Some ((hp, []), s')"
      by blast
    note e4 = wait_Inr [OF w4] and e5 = stop_effect [OF st5]
    have "cancels (trace s') = cancels (trace s) @ ?rp @ ?sp @ hp"
      using tr3 by (simp add: e5(3) e4(5))
    moreover have "set hp \<subseteq> set ?hung" by (auto simp add: e4(3))
    ultimately show ?thesis using rp sp hung by blast
  qed
qed

subsection \<open>Failure, single exit, outer cancellation\<close>

text \<open>
  C1. Some system or root task completes while \<open>run_tasks\<close> waits for the first
  completion; nothing cancels \<open>run_tasks\<close> itself, and every task ends once it is
  cancelled. Then \<open>run_tasks\<close> comes back to its caller, and when it does, every
  root task, every system task and every hung task (a task of the loop that was running
  and is not ignored) has finished and has been awaited; each of them that had not
  finished by itself (in the first wait; for a hung task, within the timeout of the
  sweep) was cancelled before it was awaited. If the task completed with an error,
  \<open>run_tasks\<close> raises. What it raises is one exception, never a cancellation, and
  it is the error of one of those tasks; when none of them has failed, it returns
  normally.
\<close>

theorem run_tasks_failure:
  fixes ignored :: "task list"
  assumes nc1: "\<not> cancelled_at_first w" and nc2: "\<not> cancelled_at_hung w"
    and tot: "\<forall>t. on_cancel w t \<noteq> None"
    and disj: "set system_tasks \<inter> set root_tasks = {}"
    and t0: "t0 \<in> set system_tasks \<union> set root_tasks"
    and pending0: "results s t0 = None"
    and done0: "first_done w t0 = Some r0"
  defines "collected \<equiv> set system_tasks \<union> set root_tasks \<union> set (aiotasks_all_tasks ignored s)"
  shows "\<exists>res s'. run_tasks w system_tasks root_tasks ignored s = Some (res, s')
     \<and> (\<forall>t \<in> collected. results s' t \<noteq> None
            \<and> Awaited t \<in> set (drop (length (trace s)) (trace s')))
     \<and> (\<forall>t \<in> collected.
           results s t = None
           \<and> (if t \<in> set system_tasks \<union> set root_tasks then first_done w t else hung_done w t) = None
           \<longrightarrow> precedes (Cancel t) (Awaited t) (drop (length (trace s)) (trace s')))
     \<and> ((\<exists>e. r0 = Raised e \<and> e \<noteq> CancelledError) \<longrightarrow> (\<exists>e. res = Raised e))
     \<and> (\<forall>e. res = Raised e \<longrightarrow>
           e \<noteq> CancelledError \<and> (\<exists>t \<in> collected. results s' t = Some (Raised e)))
     \<and> ((\<forall>t \<in> collected. \<not> failed s' t) \<longrightarrow> res = Returned)"
proof -
  define tasks where "tasks = system_tasks @ root_tasks"
  define d where "d = [t \<leftarrow> tasks. results s t \<noteq> None \<or> first_done w t \<noteq> None]"
  define p where "p = [t \<leftarrow> tasks. results s t = None \<and> first_done w t = None]"
  define rp where "rp = [t \<leftarrow> p. t \<notin> set system_tasks]"
  define sp where "sp = [t \<leftarrow> p. t \<notin> set root_tasks]"
  define hung where
    "hung = [t \<leftarrow> population s. results s t = None \<and> t \<notin> set tasks \<and> t \<notin> set ignored]"
  define hf where "hf = [t \<leftarrow> hung. hung_done w t \<noteq> None]"
  define hp where "hp = [t \<leftarrow> hung. hung_done w t = None]"
  define L where "L = d @ (rp @ sp) @ hf @ hp"
  define xs1 where "xs1 = Wait tasks None FIRST_COMPLETED # map Awaited d"
  define ys1 where "ys1 = Stop ''Root'' rp False None # map Cancel rp"
  define ys2 where "ys2 = Stop ''System'' sp False None # map Cancel sp"
  define xs3 where "xs3 = Wait hung (Some 5) ALL_COMPLETED # map Awaited hf"
  define ys3 where "ys3 = Stop ''Hung'' hp False (Some 1) # map Cancel hp"
  define new where
    "new = xs1 @ ys1 @ map Awaited rp @ ys2 @ map Awaited sp @ xs3 @ ys3 @ map Awaited hp"
  note defs = tasks_def d_def p_def rp_def sp_def hung_def hf_def hp_def L_def
    xs1_def ys1_def ys2_def xs3_def ys3_def new_def
  have t0': "t0 \<in> set (system_tasks @ root_tasks)" using t0 by simp
  have done0': "results s t0 \<noteq> None \<or> first_done w t0 \<noteq> None" using done0 by simp
  from run_tasks_normal_run [OF nc1 nc2 tot disj t0' done0', of ignored]
  obtain s' where run: "run_tasks w system_tasks root_tasks ignored s = Some (aiotasks_reraise s' L, s')"
    and tr: "trace s' = trace s @ new"
    and res: "\<And>t. results s' t =
                (if results s t \<noteq> None then results s t
                 else if t \<in> set tasks then
                   (case first_done w t of Some r \<Rightarrow> Some r | None \<Rightarrow> on_cancel w t)
                 else if t \<in> set hung then
                   (case hung_done w t of Some r \<Rightarrow> Some r | None \<Rightarrow> on_cancel w t)
                 else None)"
    unfolding defs by auto
  have new: "drop (length (trace s)) (trace s') = new" by (simp add: tr)
  have in_tasks: "t \<in> set tasks \<longleftrightarrow> t \<in> set system_tasks \<or> t \<in> set root_tasks" for t
    by (simp add: tasks_def)
  have in_hung: "t \<in> set hung \<longleftrightarrow>
      t \<in> set (aiotasks_all_tasks ignored s) \<and> t \<notin> set tasks" for t
    by (auto simp add: hung_def aiotasks_all_tasks_def)
  have in_d: "t \<in> set d \<longleftrightarrow> t \<in> set tasks \<and> \<not> (results s t = None \<and> first_done w t = None)"
    for t by (auto simp add: d_def)
  have in_rp: "t \<in> set rp \<longleftrightarrow>
      t \<in> set tasks \<and> t \<notin> set system_tasks \<and> results s t = None \<and> first_done w t = None"
    for t by (auto simp add: rp_def p_def)
  have in_sp: "t \<in> set sp \<longleftrightarrow>
      t \<in> set tasks \<and> t \<notin> set root_tasks \<and> results s t = None \<and> first_done w t = None"
    for t by (auto simp add: sp_def p_def)
  have in_hf: "t \<in> set hf \<longleftrightarrow> t \<in> set hung \<and> hung_done w t \<noteq> None" for t
    by (auto simp add: hf_def)
  have in_hp: "t \<in> set hp \<longleftrightarrow> t \<in> set hung \<and> hung_done w t = None" for t
    by (auto simp add: hp_def)
  have not_both: "t \<in> set system_tasks \<Longrightarrow> t \<notin> set root_tasks" for t using disj by blast
  have coll: "t \<in> collected \<longleftrightarrow> t \<in> set tasks \<or> t \<in> set hung" for t
    unfolding collected_def in_hung in_tasks by blast
  have in_L: "t \<in> set L \<longleftrightarrow> t \<in> set d \<or> t \<in> set rp \<or> t \<in> set sp \<or> t \<in> set hf \<or> t \<in> set hp"
    for t by (auto simp add: L_def)
  have L: "t \<in> set L \<Longrightarrow> t \<in> collected" for t
    unfolding in_L coll in_d in_rp in_sp in_hf in_hp by auto
  have split5: "t \<in> set d \<or> t \<in> set rp \<or> t \<in> set sp \<or> t \<in> set hf \<or> t \<in> set hp"
    if "t \<in> collected" for t
    using that not_both [of t]
    unfolding coll in_d in_rp in_sp in_hf in_hp in_tasks by auto
  have fin: "results s' t \<noteq> None" if "t \<in> collected" for t
    using that tot unfolding coll by (auto simp add: res split: option.splits)
  have aw: "Awaited t \<in> set new" if "t \<in> collected" for t
    using split5 [OF that] by (auto simp add: new_def xs1_def xs3_def)
  have pr: "precedes (Cancel t) (Awaited t) new"
    if t: "t \<in> collected" and pend: "results s t = None"
      "(if t \<in> set system_tasks \<union> set root_tasks then first_done w t else hung_done w t) = None"
    for t
  proof -
    have "t \<in> set tasks \<or> t \<in> set hung" using t by (simp only: coll)
    then have "t \<in> set rp \<or> (t \<in> set sp \<and> t \<notin> set rp) \<or> (t \<in> set hp \<and> t \<notin> set tasks)"
    proof
      assume a: "t \<in> set tasks"
      with pend have "first_done w t = None" by (simp add: in_tasks)
      with a pend(1) show ?thesis
        using not_both [of t] unfolding in_rp in_sp in_tasks by auto
    next
      assume a: "t \<in> set hung"
      then have nt: "t \<notin> set tasks" by (simp add: in_hung)
      with pend have "hung_done w t = None" by (simp add: in_tasks)
      with a nt show ?thesis unfolding in_hp by auto
    qed
    then consider "t \<in> set rp" | "t \<in> set sp" "t \<notin> set rp" | "t \<in> set hp" "t \<notin> set tasks"
      by blast
    then show ?thesis
    proof cases
      case 1
      then have nd: "t \<notin> set d" unfolding in_rp in_d by auto
      have "precedes (Cancel t) (Awaited t)
              (xs1 @ ys1 @ map Awaited rp @ (ys2 @ map Awaited sp @ xs3 @ ys3 @ map Awaited hp))"
        using 1 nd by (intro precedes_block) (auto simp add: xs1_def ys1_def)
      then show ?thesis by (simp add: new_def)
    next
      case 2
      then have nd: "t \<notin> set d" unfolding in_sp in_d by auto
      have "precedes (Cancel t) (Awaited t)
              ((xs1 @ ys1 @ map Awaited rp) @ ys2 @ map Awaited sp @ (xs3 @ ys3 @ map Awaited hp))"
        using 2 nd by (intro precedes_block) (auto simp add: xs1_def ys1_def ys2_def)
      then show ?thesis by (simp add: new_def)
    next
      case 3
      then have nd: "t \<notin> set d" "t \<notin> set rp" "t \<notin> set sp" "t \<notin> set hf"
        unfolding in_hp in_hf in_d in_rp in_sp by auto
      have "precedes (Cancel t) (Awaited t)
              ((xs1 @ ys1 @ map Awaited rp @ ys2 @ map Awaited sp @ xs3) @ ys3 @ map Awaited hp @ [])"
        using 3 nd by (intro precedes_block) (auto simp add: xs1_def ys1_def ys2_def xs3_def ys3_def)
      then show ?thesis by (simp add: new_def)
    qed
  qed
  have raise: "\<exists>e. aiotasks_reraise s' L = Raised e" if "\<exists>e. r0 = Raised e \<and> e \<noteq> CancelledError"
  proof -
    have t0t: "t0 \<in> set tasks" using t0 by (simp add: in_tasks)
    then have "results s' t0 = Some r0" using pending0 done0 by (simp add: res)
    with that have "failed s' t0" by (auto simp add: failed_def)
    moreover have "t0 \<in> set L" using t0t done0 unfolding in_L in_d by simp
    ultimately have "aiotasks_reraise s' L \<noteq> Returned"
      unfolding reraise_Returned by blast
    then show ?thesis by (cases "aiotasks_reraise s' L") auto
  qed
  have raised: "e \<noteq> CancelledError \<and> (\<exists>t \<in> collected. results s' t = Some (Raised e))"
    if "aiotasks_reraise s' L = Raised e" for e
    using reraise_Raised [OF that] L by blast
  have ret: "aiotasks_reraise s' L = Returned" if "\<forall>t \<in> collected. \<not> failed s' t"
    unfolding reraise_Returned using that L by blast
  show ?thesis
    apply (rule exI [of _ "aiotasks_reraise s' L"])
    apply (rule exI [of _ s'])
    apply (simp only: new)
    using run fin aw pr raise raised ret by blast
qed

theorem run_tasks_failure_witness:
  "(\<exists>res s'. run_tasks (world_example [(0, Raised (ValueError ''boom''))]
                          (\<lambda>t. Some (Raised CancelledError)))
                 [0] [1, 2] [9] (state_example [0, 1, 2, 3, 9]) = Some (res, s')
        \<and> (\<exists>e. res = Raised e \<and> e \<noteq> CancelledError))
   \<and> map_option fst
        (run_tasks (world_example [(0, Raised (ValueError ''boom''))]
                      (\<lambda>t. Some (Raised CancelledError)))
           [0] [1, 2] [9] (state_example [0, 1, 2, 3, 9]))
       = Some (Raised (ValueError ''boom''))
   \<and> map_option (trace \<circ> snd)
        (run_tasks (world_example [(0, Raised (ValueError ''boom''))]
                      (\<lambda>t. Some (Raised CancelledError)))
           [0] [1, 2] [9] (state_example [0, 1, 2, 3, 9]))
       = Some [Wait [0, 1, 2] None FIRST_COMPLETED, Awaited 0,
               Stop ''Root'' [1, 2] False None, Cancel 1, Cancel 2, Awaited 1, Awaited 2,
               Stop ''System'' [] False None,
               Wait [3] (Some 5) ALL_COMPLETED,
               Stop ''Hung'' [3] False (Some 1), Cancel 3, Awaited 3]"
proof -
  let ?w = "world_example [(0, Raised (ValueError ''boom''))] (\<lambda>t. Some (Raised CancelledError))"
  let ?s = "state_example [0, 1, 2, 3, 9]"
  have a: "\<not> cancelled_at_first ?w" "\<not> cancelled_at_hung ?w" "\<forall>t. on_cancel ?w t \<noteq> None"
    by (simp_all add: world_example_def)
  have b: "set [0::task] \<inter> set [1, 2] = {}" "(0::task) \<in> set [0] \<union> set [1, 2]" by simp_all
  have c: "results ?s 0 = None" "first_done ?w 0 = Some (Raised (ValueError ''boom''))"
    by (simp_all add: world_example_def state_example_def)
  note th = run_tasks_failure [OF a(1) a(2) a(3) b(1) b(2) c(1) c(2), of "[9]"]
  from th obtain res s' where
    run: "run_tasks ?w [0] [1, 2] [9] ?s = Some (res, s')"
    and r1: "(\<exists>e. Raised (ValueError ''boom'') = Raised e \<and> e \<noteq> CancelledError) \<longrightarrow> (\<exists>e. res = Raised e)"
    and r2: "\<forall>e. res = Raised e \<longrightarrow> e \<noteq> CancelledError \<and>
               (\<exists>t \<in> set [0] \<union> set [1, 2] \<union> set (aiotasks_all_tasks [9] ?s).
                   results s' t = Some (Raised e))"
    by blast
  from r1 obtain e where "res = Raised e" by auto
  with r2 have "res = Raised e \<and> e \<noteq> CancelledError" by blast
  with run have first: "\<exists>res s'. run_tasks ?w [0] [1, 2] [9] ?s = Some (res, s')
        \<and> (\<exists>e. res = Raised e \<and> e \<noteq> CancelledError)" by blast
  have second: "map_option fst (run_tasks ?w [0] [1, 2] [9] ?s) = Some (Raised (ValueError ''boom''))"
    by code_simp
  have third: "map_option (trace \<circ> snd) (run_tasks ?w [0] [1, 2] [9] ?s)
       = Some [Wait [0, 1, 2] None FIRST_COMPLETED, Awaited 0,
               Stop ''Root'' [1, 2] False None, Cancel 1, Cancel 2, Awaited 1, Awaited 2,
               Stop ''System'' [] False None,
               Wait [3] (Some 5) ALL_COMPLETED,
               Stop ''Hung'' [3] False (Some 1), Cancel 3, Awaited 3]"
    by code_simp
  from first second third show ?thesis by (intro conjI)
qed

lemma filter_eq_single:
  "distinct xs \<Longrightarrow> x \<in> set xs \<Longrightarrow> [t \<leftarrow> xs. t = x] = [x]"
  by (induction xs) (auto simp add: filter_empty_conv)

text \<open>
  The run in which exactly one root task \<open>r\<close> completes normally while all the
  other root and system tasks are pending, and nothing else goes wrong: nothing cancels
  \<open>run_tasks\<close>, every task ends its cancellation cancelled or by returning, and no
  hung task ends with an error. The effects are given in the order in which the lists
  are passed; the order inside one stop is that of the list, which stands for a set.
\<close>

lemma single_exit_run:
  fixes ignored :: "task list"
  assumes nc1: "\<not> cancelled_at_first w" and nc2: "\<not> cancelled_at_hung w"
    and dist: "distinct (system_tasks @ root_tasks)"
    and r: "r \<in> set root_tasks"
    and pending: "\<forall>t \<in> set (system_tasks @ root_tasks). results s t = None"
    and returned: "first_done w r = Some Returned"
    and others: "\<forall>t \<in> set (system_tasks @ root_tasks). t \<noteq> r \<longrightarrow> first_done w t = None"
    and cancellable: "\<forall>t. on_cancel w t = Some (Raised CancelledError) \<or> on_cancel w t = Some Returned"
    and hung_ok: "\<forall>t e. hung_done w t = Some (Raised e) \<longrightarrow> e = CancelledError"
  defines "root_pending \<equiv> [t \<leftarrow> root_tasks. t \<noteq> r]"
  defines "hung_tasks \<equiv>
    [t \<leftarrow> population s. results s t = None \<and> t \<notin> set (system_tasks @ root_tasks) \<and> t \<notin> set ignored]"
  defines "hung_finished \<equiv> [t \<leftarrow> hung_tasks. hung_done w t \<noteq> None]"
  defines "hung_pending \<equiv> [t \<leftarrow> hung_tasks. hung_done w t = None]"
  shows "\<exists>s'. run_tasks w system_tasks root_tasks ignored s = Some (Returned, s')
     \<and> trace s' = trace s
         @ Wait (system_tasks @ root_tasks) None FIRST_COMPLETED # Awaited r
         # Stop ''Root'' root_pending False None # map Cancel root_pending @ map Awaited root_pending
         @ Stop ''System'' system_tasks False None # map Cancel system_tasks @ map Awaited system_tasks
         @ Wait hung_tasks (Some 5) ALL_COMPLETED # map Awaited hung_finished
         @ Stop ''Hung'' hung_pending False (Some 1) # map Cancel hung_pending @ map Awaited hung_pending
     \<and> results s' r = Some Returned
     \<and> (\<forall>t \<in> set system_tasks \<union> set root_tasks. t \<noteq> r \<longrightarrow>
           results s' t = on_cancel w t \<and> results s' t \<noteq> None)"
proof -
  define tasks where "tasks = system_tasks @ root_tasks"
  define d where "d = [t \<leftarrow> tasks. results s t \<noteq> None \<or> first_done w t \<noteq> None]"
  define p where "p = [t \<leftarrow> tasks. results s t = None \<and> first_done w t = None]"
  define rp where "rp = [t \<leftarrow> p. t \<notin> set system_tasks]"
  define sp where "sp = [t \<leftarrow> p. t \<notin> set root_tasks]"
  define L where "L = d @ (rp @ sp) @ hung_finished @ hung_pending"
  have disj: "set system_tasks \<inter> set root_tasks = {}" using dist by simp
  have tot: "\<forall>t. on_cancel w t \<noteq> None"
  proof
    fix t show "on_cancel w t \<noteq> None" using cancellable [rule_format, of t] by auto
  qed
  have rt: "r \<in> set (system_tasks @ root_tasks)" using r by simp
  have done0: "results s r \<noteq> None \<or> first_done w r \<noteq> None" using returned by simp
  from run_tasks_normal_run [OF nc1 nc2 tot disj rt done0, of ignored]
  obtain s' where run: "run_tasks w system_tasks root_tasks ignored s = Some (aiotasks_reraise s' L, s')"
    and tr: "trace s' = trace s
              @ Wait tasks None FIRST_COMPLETED # map Awaited d
              @ Stop ''Root'' rp False None # map Cancel rp @ map Awaited rp
              @ Stop ''System'' sp False None # map Cancel sp @ map Awaited sp
              @ Wait hung_tasks (Some 5) ALL_COMPLETED # map Awaited hung_finished
              @ Stop ''Hung'' hung_pending False (Some 1) # map Cancel hung_pending
                  @ map Awaited hung_pending"
    and res: "\<And>t. results s' t =
                (if results s t \<noteq> None then results s t
                 else if t \<in> set tasks then
                   (case first_done w t of Some r \<Rightarrow> Some r | None \<Rightarrow> on_cancel w t)
                 else if t \<in> set hung_tasks then
                   (case hung_done w t of Some r \<Rightarrow> Some r | None \<Rightarrow> on_cancel w t)
                 else None)"
    unfolding tasks_def d_def p_def rp_def sp_def L_def hung_tasks_def hung_finished_def
      hung_pending_def
    by auto
  have pend: "t \<in> set tasks \<Longrightarrow> results s t = None" for t
    using pending by (simp add: tasks_def)
  have fdo: "t \<in> set tasks \<Longrightarrow> t \<noteq> r \<Longrightarrow> first_done w t = None" for t
    using others by (simp add: tasks_def)
  have fd: "t \<in> set tasks \<Longrightarrow> (first_done w t = None \<longleftrightarrow> t \<noteq> r)" for t
    by (cases "t = r") (simp_all add: returned fdo)
  have "d = [t \<leftarrow> tasks. t = r]"
    unfolding d_def by (rule filter_cong) (simp_all add: pend fd)
  also have "\<dots> = [r]"
    using dist rt by (simp only: tasks_def filter_eq_single)
  finally have d: "d = [r]" .
  have p: "p = [t \<leftarrow> tasks. t \<noteq> r]"
    unfolding p_def by (rule filter_cong) (simp_all add: pend fd)
  have r_sys: "r \<notin> set system_tasks" using r disj by blast
  have "rp = [t \<leftarrow> system_tasks. t \<noteq> r \<and> t \<notin> set system_tasks]
             @ [t \<leftarrow> root_tasks. t \<noteq> r \<and> t \<notin> set system_tasks]"
    by (simp add: rp_def p tasks_def conj_commute)
  also have "[t \<leftarrow> system_tasks. t \<noteq> r \<and> t \<notin> set system_tasks] = []"
    by (simp add: filter_empty_conv)
  also have "[t \<leftarrow> root_tasks. t \<noteq> r \<and> t \<notin> set system_tasks] = root_pending"
    unfolding root_pending_def by (rule filter_cong) (use disj in auto)
  finally have rp: "rp = root_pending" by simp
  have "sp = [t \<leftarrow> system_tasks. t \<noteq> r \<and> t \<notin> set root_tasks]
             @ [t \<leftarrow> root_tasks. t \<noteq> r \<and> t \<notin> set root_tasks]"
    by (simp add: sp_def p tasks_def conj_commute)
  also have "[t \<leftarrow> root_tasks. t \<noteq> r \<and> t \<notin> set root_tasks] = []"
    by (simp add: filter_empty_conv)
  also have "[t \<leftarrow> system_tasks. t \<noteq> r \<and> t \<notin> set root_tasks] = system_tasks"
    unfolding filter_id_conv using disj r_sys by auto
  finally have sp: "sp = system_tasks" by simp
  have nf: "\<not> failed s' t" if "t \<in> set L" for t
  proof -
    from that have "t \<in> set tasks \<or> t \<in> set hung_tasks"
      by (auto simp add: L_def d rp sp root_pending_def hung_finished_def hung_pending_def tasks_def r)
    then show ?thesis
    proof
      assume a: "t \<in> set tasks"
      show ?thesis
      proof (cases "t = r")
        case True
        with a show ?thesis by (simp add: failed_def res pend returned)
      next
        case False
        with a have "first_done w t = None" by (simp add: fdo)
        with a show ?thesis
          using cancellable [rule_format, of t] by (auto simp add: failed_def res pend)
      qed
    next
      assume a: "t \<in> set hung_tasks"
      then have b: "results s t = None" "t \<notin> set tasks" by (simp_all add: hung_tasks_def tasks_def)
      show ?thesis
      proof (cases "hung_done w t")
        case None
        with a b show ?thesis
          using cancellable [rule_format, of t] by (auto simp add: failed_def res)
      next
        case (Some x)
        with a b hung_ok show ?thesis
          by (cases x) (auto simp add: failed_def res)
      qed
    qed
  qed
  then have ret: "aiotasks_reraise s' L = Returned" unfolding reraise_Returned by blast
  have rr: "results s' r = Some Returned"
    using rt by (simp add: res pend returned tasks_def)
  have oth: "results s' t = on_cancel w t \<and> results s' t \<noteq> None"
    if "t \<in> set system_tasks \<union> set root_tasks" "t \<noteq> r" for t
  proof -
    from that have a: "t \<in> set tasks" by (simp add: tasks_def)
    with that have "first_done w t = None" by (simp add: fdo)
    with a tot show ?thesis by (simp add: res pend)
  qed
  show ?thesis
    apply (rule exI [of _ s'])
    using run ret tr rr oth tot
    by (auto simp add: d rp sp tasks_def)
qed

text \<open>
  C2. Exactly one root task \<open>r\<close> completes normally while all the other root and
  system tasks are pending, nothing cancels \<open>run_tasks\<close>, every task ends its
  cancellation cancelled or by returning, and no hung task ends with an error. Then
  \<open>run_tasks\<close> returns without an error, and by then it has cancelled, and
  afterwards awaited, every pending root task and every system task (the task that
  completed is not cancelled); every pending root task has been awaited before any
  system task is cancelled; and all the pending tasks have ended, as their cancellation
  made them. Nothing is said of the order inside the root tasks or inside the system
  tasks.
\<close>

theorem run_tasks_single_exit:
  fixes ignored :: "task list"
  assumes nc1: "\<not> cancelled_at_first w" and nc2: "\<not> cancelled_at_hung w"
    and dist: "distinct (system_tasks @ root_tasks)"
    and r: "r \<in> set root_tasks"
    and pending: "\<forall>t \<in> set (system_tasks @ root_tasks). results s t = None"
    and returned: "first_done w r = Some Returned"
    and others: "\<forall>t \<in> set (system_tasks @ root_tasks). t \<noteq> r \<longrightarrow> first_done w t = None"
    and cancellable: "\<forall>t. on_cancel w t = Some (Raised CancelledError) \<or> on_cancel w t = Some Returned"
    and hung_ok: "\<forall>t e. hung_done w t = Some (Raised e) \<longrightarrow> e = CancelledError"
  shows "\<exists>s' new. run_tasks w system_tasks root_tasks ignored s = Some (Returned, s')
     \<and> trace s' = trace s @ new
     \<and> Cancel r \<notin> set new
     \<and> (\<forall>t \<in> set system_tasks \<union> set root_tasks. t \<noteq> r \<longrightarrow>
           precedes (Cancel t) (Awaited t) new)
     \<and> (\<forall>t \<in> set root_tasks. \<forall>u \<in> set system_tasks. t \<noteq> r \<longrightarrow>
           precedes (Awaited t) (Cancel u) new)
     \<and> results s' r = Some Returned
     \<and> (\<forall>t \<in> set system_tasks \<union> set root_tasks. t \<noteq> r \<longrightarrow>
           results s' t = on_cancel w t \<and> results s' t \<noteq> None)"
proof -
  define root_pending where "root_pending = [t \<leftarrow> root_tasks. t \<noteq> r]"
  define hung_tasks where "hung_tasks =
    [t \<leftarrow> population s. results s t = None \<and> t \<notin> set (system_tasks @ root_tasks) \<and> t \<notin> set ignored]"
  define hung_finished where "hung_finished = [t \<leftarrow> hung_tasks. hung_done w t \<noteq> None]"
  define hung_pending where "hung_pending = [t \<leftarrow> hung_tasks. hung_done w t = None]"
  define head where "head = [Wait (system_tasks @ root_tasks) None FIRST_COMPLETED, Awaited r,
                             Stop ''Root'' root_pending False None]"
  define sweep where "sweep = Wait hung_tasks (Some 5) ALL_COMPLETED # map Awaited hung_finished
         @ Stop ''Hung'' hung_pending False (Some 1) # map Cancel hung_pending @ map Awaited hung_pending"
  define new where "new = head @ map Cancel root_pending @ map Awaited root_pending
         @ Stop ''System'' system_tasks False None # map Cancel system_tasks @ map Awaited system_tasks
         @ sweep"
  from single_exit_run [OF assms, of ignored]
  obtain s' where run: "run_tasks w system_tasks root_tasks ignored s = Some (Returned, s')"
    and tr: "trace s' = trace s @ new"
    and rr: "results s' r = Some Returned"
    and oth: "\<forall>t \<in> set system_tasks \<union> set root_tasks. t \<noteq> r \<longrightarrow>
           results s' t = on_cancel w t \<and> results s' t \<noteq> None"
    unfolding new_def head_def sweep_def root_pending_def hung_tasks_def hung_finished_def
      hung_pending_def
    by auto
  have disj: "set system_tasks \<inter> set root_tasks = {}" using dist by simp
  have r_sys: "r \<notin> set system_tasks" using r disj by blast
  have hp: "t \<in> set hung_pending \<Longrightarrow> t \<notin> set system_tasks \<and> t \<notin> set root_tasks" for t
    by (simp add: hung_pending_def hung_tasks_def)
  have hf: "t \<in> set hung_finished \<Longrightarrow> t \<notin> set system_tasks \<and> t \<notin> set root_tasks" for t
    by (simp add: hung_finished_def hung_tasks_def)
  have nr: "Cancel r \<notin> set new"
    using r r_sys hp [of r] by (auto simp add: new_def head_def sweep_def root_pending_def)
  have root_order: "precedes (Cancel t) (Awaited t) new \<and> (\<forall>u \<in> set system_tasks. precedes (Awaited t) (Cancel u) new)"
    if t: "t \<in> set root_tasks" "t \<noteq> r" for t
  proof -
    have tp: "t \<in> set root_pending" using t by (simp add: root_pending_def)
    have "precedes (Cancel t) (Awaited t)
            (head @ map Cancel root_pending @ map Awaited root_pending
               @ (Stop ''System'' system_tasks False None # map Cancel system_tasks
                    @ map Awaited system_tasks @ sweep))"
      by (rule precedes_block) (use t tp in \<open>auto simp add: head_def\<close>)
    then have a: "precedes (Cancel t) (Awaited t) new" by (simp add: new_def)
    have b: "precedes (Awaited t) (Cancel u) new" if u: "u \<in> set system_tasks" for u
    proof -
      have ur: "u \<notin> set root_pending" using u disj by (auto simp add: root_pending_def)
      have "precedes (Awaited t) (Cancel u)
              ((head @ map Cancel root_pending) @ map Awaited root_pending
                 @ (Stop ''System'' system_tasks False None # map Cancel system_tasks)
                 @ (map Awaited system_tasks @ sweep))"
        by (rule precedes_block) (use tp u ur in \<open>auto simp add: head_def\<close>)
      then show ?thesis by (simp add: new_def)
    qed
    from a b show ?thesis by blast
  qed
  have sys_order: "precedes (Cancel u) (Awaited u) new" if u: "u \<in> set system_tasks" for u
  proof -
    have ur: "u \<notin> set root_pending" "u \<noteq> r"
      using u disj r by (auto simp add: root_pending_def)
    have "precedes (Cancel u) (Awaited u)
            ((head @ map Cancel root_pending @ map Awaited root_pending
                @ [Stop ''System'' system_tasks False None])
               @ map Cancel system_tasks @ map Awaited system_tasks @ sweep)"
      by (rule precedes_block) (use u ur in \<open>auto simp add: head_def\<close>)
    then show ?thesis by (simp add: new_def)
  qed
  show ?thesis
    apply (rule exI [of _ s'])
    apply (rule exI [of _ new])
    using run tr nr rr oth root_order sys_order by blast
qed

theorem run_tasks_single_exit_witness:
  "(\<exists>s' new. run_tasks (world_example [(2, Returned)] (\<lambda>t. Some (Raised CancelledError)))
             [0] [1, 2, 3] [9] (state_example [0, 1, 2, 3, 4, 9]) = Some (Returned, s')
        \<and> trace s' = new
        \<and> Cancel 2 \<notin> set new
        \<and> precedes (Cancel 0) (Awaited 0) new
        \<and> precedes (Cancel 1) (Awaited 1) new
        \<and> precedes (Cancel 3) (Awaited 3) new
        \<and> precedes (Awaited 1) (Cancel 0) new
        \<and> precedes (Awaited 3) (Cancel 0) new
        \<and> results s' 2 = Some Returned
        \<and> results s' 0 = Some (Raised CancelledError)
        \<and> results s' 1 = Some (Raised CancelledError)
        \<and> results s' 3 = Some (Raised CancelledError))"
proof -
  let ?w = "world_example [(2, Returned)] (\<lambda>t. Some (Raised CancelledError))"
  let ?s = "state_example [0, 1, 2, 3, 4, 9]"
  have a: "\<not> cancelled_at_first ?w" "\<not> cancelled_at_hung ?w"
    by (simp_all add: world_example_def)
  have b: "distinct ([0::task] @ [1, 2, 3])" "(2::task) \<in> set [1, 2, 3]" by simp_all
  have c: "\<forall>t \<in> set ([0] @ [1, 2, 3]). results ?s t = None"
    by (simp add: state_example_def)
  have d: "first_done ?w 2 = Some Returned" by (simp add: world_example_def)
  have e: "\<forall>t \<in> set ([0] @ [1, 2, 3]). t \<noteq> 2 \<longrightarrow> first_done ?w t = None"
    by (simp add: world_example_def)
  have f: "\<forall>t. on_cancel ?w t = Some (Raised CancelledError) \<or> on_cancel ?w t = Some Returned"
    by (simp add: world_example_def)
  have g: "\<forall>t e. hung_done ?w t = Some (Raised e) \<longrightarrow> e = CancelledError"
    by (simp add: world_example_def)
  note th = run_tasks_single_exit [OF a(1) a(2) b(1) b(2) c d e f g, of "[9]"]
  then obtain s' new where
    "run_tasks ?w [0] [1, 2, 3] [9] ?s = Some (Returned, s')"
    "trace s' = trace ?s @ new" "Cancel 2 \<notin> set new"
    "\<forall>t \<in> set [0] \<union> set [1, 2, 3]. t \<noteq> 2 \<longrightarrow> precedes (Cancel t) (Awaited t) new"
    "\<forall>t \<in> set [1, 2, 3]. \<forall>u \<in> set [0]. t \<noteq> 2 \<longrightarrow> precedes (Awaited t) (Cancel u) new"
    "results s' 2 = Some Returned"
    "\<forall>t \<in> set [0] \<union> set [1, 2, 3]. t \<noteq> 2 \<longrightarrow>
           results s' t = on_cancel ?w t \<and> results s' t \<noteq> None"
    by blast
  then show ?thesis
    by (intro exI [of _ s'] exI [of _ new]) (simp add: state_example_def world_example_def)
qed

text \<open>
  Without the condition on how the cancelled tasks end, \<open>run_tasks\<close> does raise:
  here the root task 2 returns while the system task 0 and the root tasks 1 and 3 are
  pending, and the root task 1 ends its cancellation with an error, which
  \<open>run_tasks\<close> re-raises.
\<close>

theorem run_tasks_single_exit_counterexample:
  "map_option fst
     (run_tasks (world_example [(2, Returned)]
                   (\<lambda>t. if t = 1 then Some (Raised (Exception ''late''))
                        else Some (Raised CancelledError)))
        [0] [1, 2, 3] [9] (state_example [0, 1, 2, 3, 4, 9]))
     = Some (Raised (Exception ''late''))"
  by code_simp

text \<open>
  C3. When \<open>run_tasks\<close> is cancelled while it waits for the first completion, and
  it comes back at all (it does when every task ends once cancelled), then it has
  cancelled and awaited all the root tasks, then all the system tasks, then all the
  hung tasks (the tasks of the loop still running that are neither root nor system
  tasks nor ignored), in this order, and it raises the cancellation. And however
  \<open>run_tasks\<close> comes back, the tasks it has cancelled are, in the order of their
  cancellation: root tasks, then system tasks, then tasks that are neither.
\<close>

theorem run_tasks_outer_cancellation:
  fixes ignored :: "task list" and s :: state
  assumes disj: "set system_tasks \<inter> set root_tasks = {}"
  defines "hung_tasks \<equiv> [t \<leftarrow> population s. results s t = None \<and> t \<notin> set root_tasks
                                \<and> t \<notin> set system_tasks \<and> t \<notin> set ignored]"
  shows "(cancelled_at_first w \<and> (\<forall>t. on_cancel w t \<noteq> None) \<longrightarrow>
            (\<exists>s'. run_tasks w system_tasks root_tasks ignored s = Some (Raised CancelledError, s')))
     \<and> (\<forall>res s'. cancelled_at_first w
            \<and> run_tasks w system_tasks root_tasks ignored s = Some (res, s') \<longrightarrow>
          res = Raised CancelledError
          \<and> trace s' = trace s
              @ Wait (system_tasks @ root_tasks) None FIRST_COMPLETED
              # Stop ''Root'' root_tasks True (Some 10)
                  # map Cancel root_tasks @ map Awaited root_tasks
              @ Stop ''System'' system_tasks True (Some 10)
                  # map Cancel system_tasks @ map Awaited system_tasks
              @ Stop ''Hung'' hung_tasks True (Some 1)
                  # map Cancel hung_tasks @ map Awaited hung_tasks
          \<and> (\<forall>t \<in> set root_tasks \<union> set system_tasks \<union> set hung_tasks. results s' t \<noteq> None))
     \<and> (\<forall>res s'. run_tasks w system_tasks root_tasks ignored s = Some (res, s') \<longrightarrow>
          (\<exists>rs ss hs. cancels (trace s') = cancels (trace s) @ rs @ ss @ hs
             \<and> set rs \<subseteq> set root_tasks \<and> set ss \<subseteq> set system_tasks
             \<and> set hs \<inter> (set root_tasks \<union> set system_tasks) = {}))"
proof (intro conjI allI impI)
  assume a: "cancelled_at_first w \<and> (\<forall>t. on_cancel w t \<noteq> None)"
  then have c: "cancelled_at_first w" and tot: "\<forall>t. on_cancel w t \<noteq> None" by simp_all
  from stop_total [OF tot] obtain s2 where st2:
    "aiotasks_stop (on_cancel w) ''Root'' root_tasks True (Some 10)
       (emit [Wait (system_tasks @ root_tasks) None FIRST_COMPLETED] s) = Some ((root_tasks, []), s2)"
    by blast
  from stop_total [OF tot] obtain s3 where st3:
    "aiotasks_stop (on_cancel w) ''System'' system_tasks True (Some 10) s2
       = Some ((system_tasks, []), s3)"
    by blast
  from stop_total [OF tot] obtain s4 where st4:
    "aiotasks_stop (on_cancel w) ''Hung'' (aiotasks_all_tasks ignored s3) True (Some 1) s3
       = Some ((aiotasks_all_tasks ignored s3, []), s4)"
    by blast
  from run_tasks_cancelled_eq [OF c st2 st3 st4]
  show "\<exists>s'. run_tasks w system_tasks root_tasks ignored s = Some (Raised CancelledError, s')"
    by blast
next
  fix res s'
  assume a: "cancelled_at_first w \<and> run_tasks w system_tasks root_tasks ignored s = Some (res, s')"
  then have c: "cancelled_at_first w"
    and run: "run_tasks w system_tasks root_tasks ignored s = Some (res, s')" by simp_all
  show "res = Raised CancelledError" by (rule run_tasks_cancelled_run(1) [OF c run])
  show "trace s' = trace s
              @ Wait (system_tasks @ root_tasks) None FIRST_COMPLETED
              # Stop ''Root'' root_tasks True (Some 10)
                  # map Cancel root_tasks @ map Awaited root_tasks
              @ Stop ''System'' system_tasks True (Some 10)
                  # map Cancel system_tasks @ map Awaited system_tasks
              @ Stop ''Hung'' hung_tasks True (Some 1)
                  # map Cancel hung_tasks @ map Awaited hung_tasks"
    unfolding hung_tasks_def by (rule run_tasks_cancelled_run(2) [OF c run])
  show "\<forall>t \<in> set root_tasks \<union> set system_tasks \<union> set hung_tasks. results s' t \<noteq> None"
    unfolding hung_tasks_def by (rule run_tasks_cancelled_run(3) [OF c run])
next
  fix res s'
  assume run: "run_tasks w system_tasks root_tasks ignored s = Some (res, s')"
  from run_tasks_cancels_order [OF run disj]
  show "\<exists>rs ss hs. cancels (trace s') = cancels (trace s) @ rs @ ss @ hs
             \<and> set rs \<subseteq> set root_tasks \<and> set ss \<subseteq> set system_tasks
             \<and> set hs \<inter> (set root_tasks \<union> set system_tasks) = {}" .
qed

theorem run_tasks_outer_cancellation_witness:
  "(\<exists>s'. run_tasks ((world_example [] (\<lambda>t. Some (Raised CancelledError)))
                       \<lparr>cancelled_at_first := True\<rparr>)
             [0] [1, 2] [9] (state_example [0, 1, 2, 3, 9]) = Some (Raised CancelledError, s'))
   \<and> map_option (trace \<circ> snd)
        (run_tasks ((world_example [] (\<lambda>t. Some (Raised CancelledError)))
                       \<lparr>cancelled_at_first := True\<rparr>)
           [0] [1, 2] [9] (state_example [0, 1, 2, 3, 9]))
       = Some [Wait [0, 1, 2] None FIRST_COMPLETED,
               Stop ''Root'' [1, 2] True (Some 10), Cancel 1, Cancel 2, Awaited 1, Awaited 2,
               Stop ''System'' [0] True (Some 10), Cancel 0, Awaited 0,
               Stop ''Hung'' [3] True (Some 1), Cancel 3, Awaited 3]
   \<and> map_option (cancels \<circ> trace \<circ> snd)
        (run_tasks (world_example [(2, Returned)] (\<lambda>t. Some (Raised CancelledError)))
           [0] [1, 2] [9] (state_example [0, 1, 2, 3, 9]))
       = Some [1, 0, 3]"
proof -
  let ?w = "(world_example [] (\<lambda>t. Some (Raised CancelledError)))\<lparr>cancelled_at_first := True\<rparr>"
  let ?s = "state_example [0, 1, 2, 3, 9]"
  have b: "set [0::task] \<inter> set [1, 2] = {}" by simp
  have c: "cancelled_at_first ?w \<and> (\<forall>t. on_cancel ?w t \<noteq> None)"
    by (simp add: world_example_def)
  from run_tasks_outer_cancellation [OF b, where w = ?w and ignored = "[9]" and s = ?s] c
  have first: "\<exists>s'. run_tasks ?w [0] [1, 2] [9] ?s = Some (Raised CancelledError, s')"
    by blast
  have second: "map_option (trace \<circ> snd) (run_tasks ?w [0] [1, 2] [9] ?s)
       = Some [Wait [0, 1, 2] None FIRST_COMPLETED,
               Stop ''Root'' [1, 2] True (Some 10), Cancel 1, Cancel 2, Awaited 1, Awaited 2,
               Stop ''System'' [0] True (Some 10), Cancel 0, Awaited 0,
               Stop ''Hung'' [3] True (Some 1), Cancel 3, Awaited 3]"
    by code_simp
  have third: "map_option (cancels \<circ> trace \<circ> snd)
        (run_tasks (world_example [(2, Returned)] (\<lambda>t. Some (Raised CancelledError)))
           [0] [1, 2] [9] ?s) = Some [1, 0, 3]"
    by code_simp
  from first second third show ?thesis by (intro conjI)
qed

subsection \<open>Timeouts and intervals\<close>

lemma run_tasks_timings_cancelled:
  assumes run: "run_tasks w system_tasks root_tasks ignored s = Some (res, s')"
    and c: "cancelled_at_first w"
  shows "timings (trace s') = timings (trace s)
             @ [(''wait'', None), (''Root'', Some 10), (''System'', Some 10), (''Hung'', Some 1)]"
  by (simp add: run_tasks_cancelled_run(2) [OF c run])

lemma run_tasks_timings_normal:
  assumes run: "run_tasks w system_tasks root_tasks ignored s = Some (res, s')"
    and False: "\<not> cancelled_at_first w"
  shows "timings (trace s') = timings (trace s)
             @ [(''wait'', None), (''Root'', None), (''System'', None), (''wait'', Some 5),
                (''Hung'', Some 1)]"
proof -
  from run_tasks_paths [OF run] False obtain tasks_done tasks_pending s1 s2 s3 where
    w1: "aiotasks_wait False (first_done w) (system_tasks @ root_tasks) None FIRST_COMPLETED s
               = Some (Inr (tasks_done, tasks_pending), s1)"
    and st2: "aiotasks_stop (on_cancel w) ''Root'' [t \<leftarrow> tasks_pending. t \<notin> set system_tasks]
                 False None s1
               = Some (([t \<leftarrow> tasks_pending. t \<notin> set system_tasks], []), s2)"
    and st3: "aiotasks_stop (on_cancel w) ''System'' [t \<leftarrow> tasks_pending. t \<notin> set root_tasks]
                 False None s2
               = Some (([t \<leftarrow> tasks_pending. t \<notin> set root_tasks], []), s3)"
    and rest: "(cancelled_at_hung w \<and> res = Raised CancelledError \<and>
                  aiotasks_stop (on_cancel w) ''Hung'' (aiotasks_all_tasks ignored s3) True (Some 1)
                    (emit [Wait (aiotasks_all_tasks ignored s3) (Some 5) ALL_COMPLETED] s3)
                    = Some ((aiotasks_all_tasks ignored s3, []), s'))
                \<or> (\<not> cancelled_at_hung w \<and>
                   (\<exists>hung_finished hung_pending s4.
                      aiotasks_wait False (hung_done w) (aiotasks_all_tasks ignored s3) (Some 5)
                        ALL_COMPLETED s3 = Some (Inr (hung_finished, hung_pending), s4)
                      \<and> aiotasks_stop (on_cancel w) ''Hung'' hung_pending False (Some 1) s4
                        = Some ((hung_pending, []), s')
                      \<and> res = aiotasks_reraise s'
                          (tasks_done @ ([t \<leftarrow> tasks_pending. t \<notin> set system_tasks]
                                         @ [t \<leftarrow> tasks_pending. t \<notin> set root_tasks])
                           @ hung_finished @ hung_pending)))"
    by auto
  note e1 = wait_Inr [OF w1] and e2 = stop_effect [OF st2] and e3 = stop_effect [OF st3]
  have t3: "timings (trace s3) = timings (trace s)
              @ [(''wait'', None), (''Root'', None), (''System'', None)]"
    by (simp add: e3(3) e2(3) e1(5))
  let ?hung = "aiotasks_all_tasks ignored s3"
  from rest have "timings (trace s') = timings (trace s3) @ [(''wait'', Some 5), (''Hung'', Some 1)]"
  proof
    assume "cancelled_at_hung w \<and> res = Raised CancelledError \<and>
                  aiotasks_stop (on_cancel w) ''Hung'' ?hung True (Some 1)
                    (emit [Wait ?hung (Some 5) ALL_COMPLETED] s3) = Some ((?hung, []), s')"
    then have st5: "aiotasks_stop (on_cancel w) ''Hung'' ?hung True (Some 1)
                    (emit [Wait ?hung (Some 5) ALL_COMPLETED] s3) = Some ((?hung, []), s')"
      by simp
    show ?thesis by (simp add: stop_effect(3) [OF st5])
  next
    assume "\<not> cancelled_at_hung w \<and>
                   (\<exists>hung_finished hung_pending s4.
                      aiotasks_wait False (hung_done w) ?hung (Some 5)
                        ALL_COMPLETED s3 = Some (Inr (hung_finished, hung_pending), s4)
                      \<and> aiotasks_stop (on_cancel w) ''Hung'' hung_pending False (Some 1) s4
                        = Some ((hung_pending, []), s')
                      \<and> res = aiotasks_reraise s'
                          (tasks_done @ ([t \<leftarrow> tasks_pending. t \<notin> set system_tasks]
                                         @ [t \<leftarrow> tasks_pending. t \<notin> set root_tasks])
                           @ hung_finished @ hung_pending))"
    then obtain hf hp s4 where
      w4: "aiotasks_wait False (hung_done w) ?hung (Some 5) ALL_COMPLETED s3
             = Some (Inr (hf, hp), s4)"
      and st5: "aiotasks_stop (on_cancel w) ''Hung'' hp False (Some 1) s4 = Some ((hp, []), s')"
      by blast
    show ?thesis by (simp add: stop_effect(3) [OF st5] wait_Inr(5) [OF w4])
  qed
  with t3 show ?thesis by simp
qed

lemma run_tasks_timings:
  assumes run: "run_tasks w system_tasks root_tasks ignored s = Some (res, s')"
  shows "timings (trace s') = timings (trace s)
             @ [(''wait'', None), (''Root'', Some 10), (''System'', Some 10), (''Hung'', Some 1)]
       \<or> timings (trace s') = timings (trace s)
             @ [(''wait'', None), (''Root'', None), (''System'', None), (''wait'', Some 5),
                (''Hung'', Some 1)]"
  using run_tasks_timings_cancelled [OF run] run_tasks_timings_normal [OF run] by blast

text \<open>
  C9 (as amended). Of the timeouts of the shutdown protocol, the ultimate-exiting
  timeout is the caller's: whatever delay \<open>settings.process.ultimate_exiting_timeout\<close>
  holds is the delay of the kill timer. The others are fixed in \<open>run_tasks\<close>, which
  takes no settings: the timeout of the wait for the hung tasks is 5 seconds; the
  logging interval is 10 seconds for the root and system tasks stopped after an outer
  cancellation, none for those stopped after a task's exit, and 1 second for the hung
  tasks.
\<close>

theorem timeouts_and_intervals:
  "(\<forall>res s'. run_tasks w system_tasks root_tasks ignored s = Some (res, s') \<longrightarrow>
      timings (trace s') = timings (trace s)
         @ [(''wait'', None), (''Root'', Some 10), (''System'', Some 10), (''Hung'', Some 1)]
      \<or> timings (trace s') = timings (trace s)
         @ [(''wait'', None), (''Root'', None), (''System'', None), (''wait'', Some 5),
            (''Hung'', Some 1)])
   \<and> (\<forall>delay. ultimate_termination
         (st\<lparr>process := (process st)\<lparr>ultimate_exiting_timeout := Some delay\<rparr>\<rparr>) stop_flag True
       = Some (Returned, if check_flag stop_flag then [] else [CallLater delay SIGKILL]))"
proof (intro conjI allI impI)
  fix res s'
  assume "run_tasks w system_tasks root_tasks ignored s = Some (res, s')"
  then show "timings (trace s') = timings (trace s)
         @ [(''wait'', None), (''Root'', Some 10), (''System'', Some 10), (''Hung'', Some 1)]
      \<or> timings (trace s') = timings (trace s)
         @ [(''wait'', None), (''Root'', None), (''System'', None), (''wait'', Some 5),
            (''Hung'', Some 1)]"
    by (rule run_tasks_timings)
next
  fix delay
  show "ultimate_termination
         (st\<lparr>process := (process st)\<lparr>ultimate_exiting_timeout := Some delay\<rparr>\<rparr>) stop_flag True
       = Some (Returned, if check_flag stop_flag then [] else [CallLater delay SIGKILL])"
    by (simp add: ultimate_termination_def)
qed

theorem timeouts_and_intervals_witness:
  "map_option (timings \<circ> trace \<circ> snd)
      (run_tasks (world_example [(2, Returned)] (\<lambda>t. Some (Raised CancelledError)))
         [0] [1, 2] [9] (state_example [0, 1, 2, 3, 9]))
     = Some [(''wait'', None), (''Root'', None), (''System'', None), (''wait'', Some 5),
             (''Hung'', Some 1)]
   \<and> ultimate_termination
        ((settings_example None)\<lparr>process :=
            (process (settings_example None))\<lparr>ultimate_exiting_timeout := Some 30\<rparr>\<rparr>) None True
     = Some (Returned, [CallLater 30 SIGKILL])
   \<and> ultimate_termination
        ((settings_example None)\<lparr>process :=
            (process (settings_example None))\<lparr>ultimate_exiting_timeout := Some 7\<rparr>\<rparr>) None True
     = Some (Returned, [CallLater 7 SIGKILL])"
proof -
  have a: "map_option (timings \<circ> trace \<circ> snd)
      (run_tasks (world_example [(2, Returned)] (\<lambda>t. Some (Raised CancelledError)))
         [0] [1, 2] [9] (state_example [0, 1, 2, 3, 9]))
     = Some [(''wait'', None), (''Root'', None), (''System'', None), (''wait'', Some 5),
             (''Hung'', Some 1)]"
    by code_simp
  have b: "\<not> check_flag None" by (simp add: check_flag_def)
  from timeouts_and_intervals [of _ _ _ _ _ "settings_example None" None] b
  have c: "ultimate_termination
        ((settings_example None)\<lparr>process :=
            (process (settings_example None))\<lparr>ultimate_exiting_timeout := Some delay\<rparr>\<rparr>) None True
     = Some (Returned, [CallLater delay SIGKILL])" for delay
    by simp
  from a c [of 30] c [of 7] show ?thesis by (intro conjI)
qed

lemma spawn_tasks_example:
  "spawn_tasks ((options_example True [] None)\<lparr>opt_settings := st\<rparr>) (state_example [])
     = (Inr \<lparr>spawned_system = [1, 2, 3, 4, 5], spawned_root = [6, 7, 8, 9, 10, 11, 12, 13],
             spawned_settings = map_kwargs True None None None st, spawned_namespaces = []\<rparr>,
        spawned_state)"
  by (simp add: spawn_tasks_def options_example_def state_example_def truthy_def emit_def
      create_task_def create_guarded_task_def new_task_def system_task_names_def
      root_task_names_def add_signal_handlers_def spawned_state_def Let_def)

lemma operator_example:
  "operator w ((options_example True [] None)\<lparr>opt_settings := st\<rparr>) (state_example [])
     = run_tasks w [1, 2, 3, 4, 5] [6, 7, 8, 9, 10, 11, 12, 13] [] spawned_state"
  unfolding operator_def spawn_tasks_example
  by (simp add: aiotasks_all_tasks_def state_example_def)


lemma timings_spawned_state: "timings (trace spawned_state) = []"
  by (simp add: spawned_state_def)

text \<open>
  The claim as it stands fails: with the ultimate-exiting timeout set to 1 second or
  to 600 seconds, the operator waits 5 seconds for the hung tasks and logs their
  stopping every second, and no option of it says otherwise.
\<close>

theorem hung_timeout_counterexample:
  "map_option (timings \<circ> trace \<circ> snd)
      (operator (world_example [(6, Returned)] (\<lambda>t. Some (Raised CancelledError)))
         ((options_example True [] None)\<lparr>opt_settings := settings_example (Some 1)\<rparr>)
         (state_example []))
     = Some [(''wait'', None), (''Root'', None), (''System'', None), (''wait'', Some 5),
             (''Hung'', Some 1)]
   \<and> map_option (timings \<circ> trace \<circ> snd)
      (operator (world_example [(6, Returned)] (\<lambda>t. Some (Raised CancelledError)))
         ((options_example True [] None)\<lparr>opt_settings := settings_example (Some 600)\<rparr>)
         (state_example []))
     = Some [(''wait'', None), (''Root'', None), (''System'', None), (''wait'', Some 5),
             (''Hung'', Some 1)]"
proof -
  let ?w = "world_example [(6, Returned)] (\<lambda>t. Some (Raised CancelledError))"
  let ?sys = "[1, 2, 3, 4, 5] :: task list"
  let ?root = "[6, 7, 8, 9, 10, 11, 12, 13] :: task list"
  have a: "\<not> cancelled_at_first ?w" "\<not> cancelled_at_hung ?w" "\<forall>t. on_cancel ?w t \<noteq> None"
    by (simp_all add: world_example_def)
  have b: "set ?sys \<inter> set ?root = {}" "(6::task) \<in> set (?sys @ ?root)" by simp_all
  have c: "results spawned_state 6 \<noteq> None \<or> first_done ?w 6 \<noteq> None"
    by (simp add: world_example_def)
  from run_tasks_normal_run [OF a(1) a(2) a(3) b(1) b(2) c, of "[]"]
  obtain res s' where run: "run_tasks ?w ?sys ?root [] spawned_state = Some (res, s')"
    by blast
  from run_tasks_timings_normal [OF run a(1)]
  have "timings (trace s') = [(''wait'', None), (''Root'', None), (''System'', None),
           (''wait'', Some 5), (''Hung'', Some 1)]"
    by (simp add: timings_spawned_state)
  with run have "map_option (timings \<circ> trace \<circ> snd) (run_tasks ?w ?sys ?root [] spawned_state)
     = Some [(''wait'', None), (''Root'', None), (''System'', None), (''wait'', Some 5),
             (''Hung'', Some 1)]"
    by simp
  then show ?thesis by (simp only: operator_example simp_thms)
qed

subsection \<open>The startup and cleanup activities\<close>

lemma wait_all_eq:
  "aiotasks_wait c ends ts None ALL_COMPLETED s =
     (if c then Some (Inl CancelledError, emit [Wait ts None ALL_COMPLETED] s)
      else if \<forall>t \<in> set ts. results s t = None \<longrightarrow> ends t \<noteq> None
        then Some (Inr (ts, []),
                   emit (map Awaited ts) (finish ends ts (emit [Wait ts None ALL_COMPLETED] s)))
        else None)"
proof -
  let ?s1 = "finish ends ts (emit [Wait ts None ALL_COMPLETED] s)"
  have a: "[t \<leftarrow> ts. results ?s1 t = None] = [] \<longleftrightarrow>
             (\<forall>t \<in> set ts. results s t = None \<longrightarrow> ends t \<noteq> None)"
    by (auto simp add: filter_empty_conv finish_results)
  have b: "[t \<leftarrow> ts. results ?s1 t = None] = [] \<Longrightarrow> [t \<leftarrow> ts. results ?s1 t \<noteq> None] = ts"
    by (simp add: filter_empty_conv filter_id_conv)
  show ?thesis
    using a b by (auto simp add: aiotasks_wait_def Let_def)
qed

lemma precedes_take:
  "precedes a b es \<Longrightarrow> b \<in> set (take k es) \<Longrightarrow> a \<in> set (take k es)"
proof (induction es arbitrary: k)
  case Nil
  then show ?case by simp
next
  case (Cons x es)
  show ?case
  proof (cases k)
    case 0
    with Cons.prems show ?thesis by simp
  next
    case (Suc j)
    with Cons show ?thesis
      by (auto simp add: precedes_def split: if_splits)
  qed
qed

lemma not_in_take: "b \<notin> set es \<Longrightarrow> b \<notin> set (take k es)"
  by (auto dest: in_set_takeD)

lemma started_precedes:
  "SetStarted \<in> set (new_trace h system_tasks root_tasks current_task s) \<longrightarrow>
   precedes (ActivityDone STARTUP) SetStarted (new_trace h system_tasks root_tasks current_task s)"
  by (simp add: new_trace_def startup_cleanup_activities_def Let_def wait_all_eq precedes_def
      split: result.split)

lemma ready_precedes:
  "RaiseReady \<in> set (new_trace h system_tasks root_tasks current_task s) \<longrightarrow>
   precedes SetStarted RaiseReady (new_trace h system_tasks root_tasks current_task s)"
  by (simp add: new_trace_def startup_cleanup_activities_def Let_def wait_all_eq precedes_def
      split: result.split)

lemma startup_failed:
  "startup_ends h = Raised e \<longrightarrow>
   fst (startup_cleanup_activities h system_tasks root_tasks current_task s) = Some (Raised e)
   \<and> SetStarted \<notin> set (new_trace h system_tasks root_tasks current_task s)
   \<and> RaiseReady \<notin> set (new_trace h system_tasks root_tasks current_task s)"
  by (simp add: new_trace_def startup_cleanup_activities_def Let_def split: result.split)

lemma startup_succeeded:
  "startup_ends h = Returned \<longrightarrow>
   SetStarted \<in> set (new_trace h system_tasks root_tasks current_task s)
   \<and> RaiseReady \<in> set (new_trace h system_tasks root_tasks current_task s)"
  by (simp add: new_trace_def startup_cleanup_activities_def Let_def wait_all_eq
      split: result.split)

lemma wait_all:
  "aiotasks_wait c ends ts None ALL_COMPLETED s =
     (if c then Some (Inl CancelledError, emit [Wait ts None ALL_COMPLETED] s)
      else if all_exit ends ts s then Some (Inr (ts, []), waited ends ts s)
      else None)"
  by (auto simp add: wait_all_eq all_exit_def waited_def)

lemma waited_simps [simp]:
  "population (waited ends ts s) = population s"
  "trace (waited ends ts s) = trace s @ Wait ts None ALL_COMPLETED # map Awaited ts"
  by (simp_all add: waited_def)

lemma waited_results [simp]: "results (waited ends ts s) = results (finish ends ts s)"
  by (rule ext) (simp add: waited_def finish_results)

lemma started_simps [simp]:
  "population (started s) = population s"
  "trace (started s) = trace s @ [LogDebug ''Starting Kopf.'', RunActivity STARTUP,
                                   ActivityDone STARTUP, SetStarted, RaiseReady]"
  "results (started s) = results s"
  by (simp_all add: started_def)

lemma runner_leaves:
  fixes h system_tasks root_tasks current_task s
  defines "run \<equiv> startup_cleanup_activities h system_tasks root_tasks current_task s"
  defines "roots \<equiv> [task \<leftarrow> root_tasks. task \<noteq> current_task]"
  defines "systems \<equiv> [task \<leftarrow> system_tasks. task \<noteq> current_task]"
  defines "s2 \<equiv> waited (exits h) roots (started s)"
  defines "s3 \<equiv> waited (exits h) systems s2"
  defines "partially \<equiv> LogWarning ''Cleanup activity is only partially executed due to cancellation.''"
  defines "not_at_all \<equiv> LogWarning ''Cleanup activity is not executed at all due to cancellation.''"
  shows "startup_ends h = Raised e \<Longrightarrow>
           run = (if e = CancelledError then
                    (Some (Raised e),
                     emit [LogWarning ''Startup activity is only partially executed due to cancellation.'']
                       (emit [LogDebug ''Starting Kopf.'', RunActivity STARTUP] s))
                  else (Some (Raised e), emit [LogDebug ''Starting Kopf.'', RunActivity STARTUP] s))"
    and "startup_ends h = Returned \<Longrightarrow> ready_ends h = Raised e \<Longrightarrow>
           run = (Some (Raised e), started s)"
    and "startup_ends h = Returned \<Longrightarrow> ready_ends h = Returned \<Longrightarrow> \<not> woken h \<Longrightarrow>
           run = (None, started s)"
    and "startup_ends h = Returned \<Longrightarrow> ready_ends h = Returned \<Longrightarrow> woken h \<Longrightarrow>
         cancelled_at_roots h \<Longrightarrow>
           run = (Some (Raised CancelledError),
                  emit [not_at_all] (emit [Wait roots None ALL_COMPLETED] (started s)))"
    and "startup_ends h = Returned \<Longrightarrow> ready_ends h = Returned \<Longrightarrow> woken h \<Longrightarrow>
         \<not> cancelled_at_roots h \<Longrightarrow> \<not> all_exit (exits h) roots (started s) \<Longrightarrow>
           run = (None, emit [Wait roots None ALL_COMPLETED] (started s))"
    and "startup_ends h = Returned \<Longrightarrow> ready_ends h = Returned \<Longrightarrow> woken h \<Longrightarrow>
         \<not> cancelled_at_roots h \<Longrightarrow> all_exit (exits h) roots (started s) \<Longrightarrow>
         cancelled_at_systems h \<Longrightarrow>
           run = (Some (Raised CancelledError),
                  emit [not_at_all] (emit [Wait systems None ALL_COMPLETED] s2))"
    and "startup_ends h = Returned \<Longrightarrow> ready_ends h = Returned \<Longrightarrow> woken h \<Longrightarrow>
         \<not> cancelled_at_roots h \<Longrightarrow> all_exit (exits h) roots (started s) \<Longrightarrow>
         \<not> cancelled_at_systems h \<Longrightarrow> \<not> all_exit (exits h) systems s2 \<Longrightarrow>
           run = (None, emit [Wait systems None ALL_COMPLETED] s2)"
    and "startup_ends h = Returned \<Longrightarrow> ready_ends h = Returned \<Longrightarrow> woken h \<Longrightarrow>
         \<not> cancelled_at_roots h \<Longrightarrow> all_exit (exits h) roots (started s) \<Longrightarrow>
         \<not> cancelled_at_systems h \<Longrightarrow> all_exit (exits h) systems s2 \<Longrightarrow>
           run = (case cleanup_ends h of
                    Raised e \<Rightarrow>
                      (if e = CancelledError then
                         (Some (Raised e), emit [partially] (emit [RunActivity CLEANUP] s3))
                       else (Some (Raised e), emit [RunActivity CLEANUP] s3))
                  | Returned \<Rightarrow>
                      (case close_ends h of
                         Raised e \<Rightarrow>
                           (if e = CancelledError then
                              (Some (Raised e),
                               emit [partially]
                                 (emit [ActivityDone CLEANUP, VaultClose]
                                    (emit [RunActivity CLEANUP] s3)))
                            else (Some (Raised e),
                                  emit [ActivityDone CLEANUP, VaultClose]
                                    (emit [RunActivity CLEANUP] s3)))
                       | Returned \<Rightarrow>
                           (Some Returned,
                            emit [ActivityDone CLEANUP, VaultClose] (emit [RunActivity CLEANUP] s3))))"
  unfolding run_def s3_def s2_def roots_def systems_def partially_def not_at_all_def
  by (simp_all add: startup_cleanup_activities_def Let_def wait_all started_def [symmetric]
        split: result.split)

lemma trace_extends:
  "trace (snd (startup_cleanup_activities h system_tasks root_tasks current_task s))
     = trace s @ new_trace h system_tasks root_tasks current_task s"
  by (simp add: new_trace_def startup_cleanup_activities_def Let_def wait_all split: result.split)

lemma cleanup_conditions:
  "RunActivity CLEANUP \<in> set (new_trace h system_tasks root_tasks current_task s)
   \<or> VaultClose \<in> set (new_trace h system_tasks root_tasks current_task s) \<longrightarrow>
   startup_ends h = Returned \<and> ready_ends h = Returned \<and> woken h
   \<and> \<not> cancelled_at_roots h
   \<and> all_exit (exits h) [task \<leftarrow> root_tasks. task \<noteq> current_task] (started s)
   \<and> \<not> cancelled_at_systems h
   \<and> all_exit (exits h) [task \<leftarrow> system_tasks. task \<noteq> current_task]
        (waited (exits h) [task \<leftarrow> root_tasks. task \<noteq> current_task] (started s))"
  by (auto simp add: new_trace_def startup_cleanup_activities_def Let_def wait_all
        started_def [symmetric] split: result.split)

lemma cleanup_run:
  fixes h system_tasks root_tasks current_task s
  defines "run \<equiv> startup_cleanup_activities h system_tasks root_tasks current_task s"
  defines "roots \<equiv> [task \<leftarrow> root_tasks. task \<noteq> current_task]"
  defines "systems \<equiv> [task \<leftarrow> system_tasks. task \<noteq> current_task]"
  defines "s3 \<equiv> waited (exits h) systems (waited (exits h) roots (started s))"
  assumes "startup_ends h = Returned" "ready_ends h = Returned" "woken h"
    and "\<not> cancelled_at_roots h" "all_exit (exits h) roots (started s)"
    and "\<not> cancelled_at_systems h"
    and "all_exit (exits h) systems (waited (exits h) roots (started s))"
  shows "\<exists>tail. trace (snd run) = trace s3 @ RunActivity CLEANUP # tail
                \<and> results (snd run) = results s3
                \<and> (VaultClose \<in> set tail \<longrightarrow>
                     (\<exists>rest. tail = ActivityDone CLEANUP # VaultClose # rest))"
proof -
  define partially where
    "partially = LogWarning ''Cleanup activity is only partially executed due to cancellation.''"
  note leaf = runner_leaves(8) [OF assms(5-8) assms(9) [unfolded roots_def] assms(10)
      assms(11) [unfolded roots_def systems_def], folded roots_def systems_def s3_def run_def
      partially_def]
  show ?thesis
  proof (cases "cleanup_ends h")
    case (Raised e)
    show ?thesis
      by (rule exI [of _ "if e = CancelledError then [partially] else []"])
        (simp add: leaf Raised partially_def)
  next
    case Returned
    note cleanup = this
    show ?thesis
    proof (cases "close_ends h")
      case (Raised e)
      show ?thesis
        by (rule exI [of _ "ActivityDone CLEANUP # VaultClose
                             # (if e = CancelledError then [partially] else [])"])
          (simp add: leaf cleanup Raised partially_def)
    next
      case Returned
      show ?thesis
        by (rule exI [of _ "[ActivityDone CLEANUP, VaultClose]"])
          (simp add: leaf cleanup Returned)
    qed
  qed
qed

lemma precedes_first: "b \<notin> set xs \<Longrightarrow> a \<in> set xs \<Longrightarrow> precedes a b (xs @ b # ys)"
  by (simp add: precedes_def takeWhile_skip)

lemma guarded_task_Running: "guarded_task past cancelled = Running \<longleftrightarrow> SetStarted \<in> set past"
  by (simp add: guarded_task_def)


text \<open>
  C4. In a run of the startup and cleanup activities, \<open>started_flag.set()\<close> and
  \<open>aioadapters.raise_flag(ready_flag)\<close> are called only when the startup activity
  has ended without an exception, the first after the end of the activity and the second
  after the first; and when the activity has ended so, both are called. Hence a guarded
  task, whose gate was closed when the run began, is running its body at no moment
  before the startup activity has ended: whatever prefix of the effects of the run has
  happened, if the task is running then the end of the startup activity is in that
  prefix. When the startup activity is cancelled, the coroutine raises the cancellation,
  neither call is made, and no guarded task ever runs.
\<close>

theorem startup_gate:
  fixes h system_tasks root_tasks current_task s
  defines "run \<equiv> startup_cleanup_activities h system_tasks root_tasks current_task s"
  defines "new \<equiv> new_trace h system_tasks root_tasks current_task s"
  shows "(SetStarted \<in> set new \<longrightarrow>
            startup_ends h = Returned \<and> precedes (ActivityDone STARTUP) SetStarted new)
       \<and> (RaiseReady \<in> set new \<longrightarrow>
            startup_ends h = Returned \<and> precedes SetStarted RaiseReady new)
       \<and> (startup_ends h = Returned \<longrightarrow> SetStarted \<in> set new \<and> RaiseReady \<in> set new)
       \<and> (SetStarted \<notin> set (trace s) \<longrightarrow>
            (\<forall>k cancelled. guarded_task (trace s @ take k new) cancelled = Running \<longrightarrow>
               ActivityDone STARTUP \<in> set (take k new)))
       \<and> (startup_ends h = Raised CancelledError \<longrightarrow>
            fst run = Some (Raised CancelledError)
            \<and> SetStarted \<notin> set new \<and> RaiseReady \<notin> set new
            \<and> (SetStarted \<notin> set (trace s) \<longrightarrow>
                 (\<forall>k cancelled. guarded_task (trace s @ take k new) cancelled \<noteq> Running)))"
proof -
  have failed: "fst run = Some (Raised e) \<and> SetStarted \<notin> set new \<and> RaiseReady \<notin> set new"
    if "startup_ends h = Raised e" for e
    using startup_failed [of h e system_tasks root_tasks current_task s] that
    by (simp add: run_def new_def)
  have ok: "startup_ends h = Returned" if "SetStarted \<in> set new \<or> RaiseReady \<in> set new"
  proof (cases "startup_ends h")
    case Returned
    then show ?thesis .
  next
    case (Raised e)
    with failed [of e] that show ?thesis by blast
  qed
  have a: "SetStarted \<in> set new \<longrightarrow>
            startup_ends h = Returned \<and> precedes (ActivityDone STARTUP) SetStarted new"
    using ok started_precedes [of h system_tasks root_tasks current_task s]
    by (simp add: new_def)
  have b: "RaiseReady \<in> set new \<longrightarrow>
            startup_ends h = Returned \<and> precedes SetStarted RaiseReady new"
    using ok ready_precedes [of h system_tasks root_tasks current_task s]
    by (simp add: new_def)
  have c: "startup_ends h = Returned \<longrightarrow> SetStarted \<in> set new \<and> RaiseReady \<in> set new"
    using startup_succeeded [of h system_tasks root_tasks current_task s]
    by (simp add: new_def)
  have d: "ActivityDone STARTUP \<in> set (take k new)"
    if "SetStarted \<notin> set (trace s)" "guarded_task (trace s @ take k new) cancelled = Running"
    for k cancelled
  proof -
    from that have in_take: "SetStarted \<in> set (take k new)"
      by (simp add: guarded_task_Running)
    then have "SetStarted \<in> set new" by (rule in_set_takeD)
    with a have "precedes (ActivityDone STARTUP) SetStarted new" by simp
    from precedes_take [OF this in_take] show ?thesis .
  qed
  have e: "guarded_task (trace s @ take k new) cancelled \<noteq> Running"
    if "startup_ends h = Raised CancelledError" "SetStarted \<notin> set (trace s)" for k cancelled
  proof -
    from failed [OF that(1)] have "SetStarted \<notin> set new" by simp
    then have "SetStarted \<notin> set (take k new)" by (rule not_in_take)
    with that(2) show ?thesis by (simp add: guarded_task_Running)
  qed
  from a b c d e failed [of CancelledError] show ?thesis by blast
qed


theorem startup_gate_witness:
  "new_trace (happenings_example Returned False False) [0, 1, 2] [3, 4] 2
       (state_example [0, 1, 2, 3, 4])
     = [LogDebug ''Starting Kopf.'', RunActivity STARTUP, ActivityDone STARTUP, SetStarted,
        RaiseReady, Wait [3, 4] None ALL_COMPLETED, Awaited 3, Awaited 4,
        Wait [0, 1] None ALL_COMPLETED, Awaited 0, Awaited 1,
        RunActivity CLEANUP, ActivityDone CLEANUP, VaultClose]
   \<and> precedes (ActivityDone STARTUP) SetStarted
        (new_trace (happenings_example Returned False False) [0, 1, 2] [3, 4] 2
           (state_example [0, 1, 2, 3, 4]))
   \<and> precedes SetStarted RaiseReady
        (new_trace (happenings_example Returned False False) [0, 1, 2] [3, 4] 2
           (state_example [0, 1, 2, 3, 4]))
   \<and> guarded_task (take 2 (new_trace (happenings_example Returned False False) [0, 1, 2] [3, 4] 2
           (state_example [0, 1, 2, 3, 4]))) False = Waiting
   \<and> guarded_task (take 4 (new_trace (happenings_example Returned False False) [0, 1, 2] [3, 4] 2
           (state_example [0, 1, 2, 3, 4]))) False = Running
   \<and> startup_cleanup_activities (happenings_example (Raised CancelledError) False False)
        [0, 1, 2] [3, 4] 2 (state_example [0, 1, 2, 3, 4])
     = (Some (Raised CancelledError),
        \<lparr>population = [0, 1, 2, 3, 4], results = (\<lambda>t. None),
         trace = [LogDebug ''Starting Kopf.'', RunActivity STARTUP,
                  LogWarning ''Startup activity is only partially executed due to cancellation.'']\<rparr>)
   \<and> SetStarted \<notin> set (new_trace (happenings_example (Raised CancelledError) False False)
        [0, 1, 2] [3, 4] 2 (state_example [0, 1, 2, 3, 4]))"
proof -
  let ?h = "happenings_example Returned False False"
  let ?c = "happenings_example (Raised CancelledError) False False"
  let ?s = "state_example [0, 1, 2, 3, 4]"
  have a: "startup_ends ?h = Returned" "startup_ends ?c = Raised CancelledError"
    by (simp_all add: happenings_example_def)
  note th = startup_gate [where h = ?h and system_tasks = "[0, 1, 2]" and root_tasks = "[3, 4]"
      and current_task = 2 and s = ?s]
  note tc = startup_gate [where h = ?c and system_tasks = "[0, 1, 2]" and root_tasks = "[3, 4]"
      and current_task = 2 and s = ?s]
  have order: "precedes (ActivityDone STARTUP) SetStarted (new_trace ?h [0, 1, 2] [3, 4] 2 ?s)"
    "precedes SetStarted RaiseReady (new_trace ?h [0, 1, 2] [3, 4] 2 ?s)"
    using th a(1) by simp_all
  have never: "SetStarted \<notin> set (new_trace ?c [0, 1, 2] [3, 4] 2 ?s)"
    using tc a(2) by simp
  have run: "new_trace ?h [0, 1, 2] [3, 4] 2 ?s
     = [LogDebug ''Starting Kopf.'', RunActivity STARTUP, ActivityDone STARTUP, SetStarted,
        RaiseReady, Wait [3, 4] None ALL_COMPLETED, Awaited 3, Awaited 4,
        Wait [0, 1] None ALL_COMPLETED, Awaited 0, Awaited 1,
        RunActivity CLEANUP, ActivityDone CLEANUP, VaultClose]"
    by code_simp
  have guards: "guarded_task (take 2 (new_trace ?h [0, 1, 2] [3, 4] 2 ?s)) False = Waiting"
    "guarded_task (take 4 (new_trace ?h [0, 1, 2] [3, 4] 2 ?s)) False = Running"
    unfolding run by (simp_all add: guarded_task_def)
  have cancelled: "startup_cleanup_activities ?c [0, 1, 2] [3, 4] 2 ?s
     = (Some (Raised CancelledError),
        \<lparr>population = [0, 1, 2, 3, 4], results = (\<lambda>t. None),
         trace = [LogDebug ''Starting Kopf.'', RunActivity STARTUP,
                  LogWarning ''Startup activity is only partially executed due to cancellation.'']\<rparr>)"
    by (simp add: startup_cleanup_activities_def happenings_example_def state_example_def
        emit_def Let_def)
  from run order guards cancelled never show ?thesis by (intro conjI)
qed


text \<open>
  C5. When the cleanup activity is begun, or the vault closed, in a run of the startup
  and cleanup activities, every root task and every system task other than the task
  itself has ended and has been awaited before the cleanup activity began; and the vault
  is closed only after the cleanup activity has ended. When the task is cancelled while
  it waits for the root tasks, or, these having all ended, while it waits for the system
  tasks, the coroutine raises the cancellation after the warning that the cleanup is not
  executed at all, and neither the cleanup activity is begun nor the vault closed.
\<close>

theorem cleanup_after_other_tasks:
  fixes h system_tasks root_tasks current_task s
  defines "run \<equiv> startup_cleanup_activities h system_tasks root_tasks current_task s"
  defines "new \<equiv> new_trace h system_tasks root_tasks current_task s"
  defines "roots \<equiv> [task \<leftarrow> root_tasks. task \<noteq> current_task]"
  defines "systems \<equiv> [task \<leftarrow> system_tasks. task \<noteq> current_task]"
  shows "(RunActivity CLEANUP \<in> set new \<or> VaultClose \<in> set new \<longrightarrow>
            (\<forall>t \<in> set roots \<union> set systems.
               results (snd run) t \<noteq> None \<and> precedes (Awaited t) (RunActivity CLEANUP) new)
            \<and> (VaultClose \<in> set new \<longrightarrow> precedes (ActivityDone CLEANUP) VaultClose new))
       \<and> (startup_ends h = Returned \<and> ready_ends h = Returned \<and> woken h
            \<and> (cancelled_at_roots h
                \<or> (\<forall>t \<in> set roots. results s t = None \<longrightarrow> exits h t \<noteq> None)
                   \<and> cancelled_at_systems h) \<longrightarrow>
            fst run = Some (Raised CancelledError)
            \<and> RunActivity CLEANUP \<notin> set new \<and> VaultClose \<notin> set new
            \<and> LogWarning ''Cleanup activity is not executed at all due to cancellation.''
                 \<in> set new)"
proof (intro conjI impI)
  assume A: "RunActivity CLEANUP \<in> set new \<or> VaultClose \<in> set new"
  define s2 where "s2 = waited (exits h) roots (started s)"
  define s3 where "s3 = waited (exits h) systems s2"
  define pre where "pre = [LogDebug ''Starting Kopf.'', RunActivity STARTUP,
                         ActivityDone STARTUP, SetStarted, RaiseReady]
                  @ Wait roots None ALL_COMPLETED # map Awaited roots
                  @ Wait systems None ALL_COMPLETED # map Awaited systems"
  from A cleanup_conditions [of h system_tasks root_tasks current_task s]
  have c: "startup_ends h = Returned" "ready_ends h = Returned" "woken h"
    "\<not> cancelled_at_roots h" "all_exit (exits h) roots (started s)"
    "\<not> cancelled_at_systems h" "all_exit (exits h) systems s2"
    by (simp_all add: new_def roots_def systems_def s2_def)
  from cleanup_run [OF c(1-4) c(5) [unfolded roots_def] c(6)
      c(7) [unfolded s2_def roots_def systems_def]]
  obtain tail where tr: "trace (snd run) = trace s3 @ RunActivity CLEANUP # tail"
    and res: "results (snd run) = results s3"
    and tl: "VaultClose \<in> set tail \<longrightarrow> (\<exists>rest. tail = ActivityDone CLEANUP # VaultClose # rest)"
    unfolding run_def s3_def s2_def roots_def systems_def by blast
  have "trace s @ new = trace s @ pre @ RunActivity CLEANUP # tail"
    using tr trace_extends [of h system_tasks root_tasks current_task s]
    by (simp add: run_def new_def s3_def s2_def pre_def)
  then have new: "new = pre @ RunActivity CLEANUP # tail" by simp
  have np: "RunActivity CLEANUP \<notin> set pre" "VaultClose \<notin> set pre"
    by (auto simp add: pre_def)
  have each: "results (snd run) t \<noteq> None \<and> precedes (Awaited t) (RunActivity CLEANUP) new"
    if t: "t \<in> set roots \<union> set systems" for t
  proof
    have r2: "results s2 t \<noteq> None" if "t \<in> set roots"
      using that c(5) by (auto simp add: s2_def finish_results all_exit_def)
    have r3: "results s3 t \<noteq> None" if "t \<in> set systems \<or> results s2 t \<noteq> None"
      using that c(7) by (auto simp add: s3_def finish_results all_exit_def)
    from t r2 r3 show "results (snd run) t \<noteq> None" unfolding res by blast
    have "Awaited t \<in> set pre" using t by (auto simp add: pre_def)
    with np(1) show "precedes (Awaited t) (RunActivity CLEANUP) new"
      unfolding new by (intro precedes_first)
  qed
  then show "\<forall>t \<in> set roots \<union> set systems.
               results (snd run) t \<noteq> None \<and> precedes (Awaited t) (RunActivity CLEANUP) new"
    by blast
  show "precedes (ActivityDone CLEANUP) VaultClose new" if "VaultClose \<in> set new"
  proof -
    from that np(2) have "VaultClose \<in> set tail" by (simp add: new)
    with tl obtain rest where "tail = ActivityDone CLEANUP # VaultClose # rest" by blast
    then have "new = (pre @ [RunActivity CLEANUP, ActivityDone CLEANUP]) @ VaultClose # rest"
      by (simp add: new)
    moreover have "precedes (ActivityDone CLEANUP) VaultClose
                     ((pre @ [RunActivity CLEANUP, ActivityDone CLEANUP]) @ VaultClose # rest)"
      by (rule precedes_first) (use np(2) in simp_all)
    ultimately show ?thesis by simp
  qed
next
  assume B: "startup_ends h = Returned \<and> ready_ends h = Returned \<and> woken h
            \<and> (cancelled_at_roots h
                \<or> (\<forall>t \<in> set roots. results s t = None \<longrightarrow> exits h t \<noteq> None)
                   \<and> cancelled_at_systems h)"
  define not_at_all where
    "not_at_all = LogWarning ''Cleanup activity is not executed at all due to cancellation.''"
  define five where "five = [LogDebug ''Starting Kopf.'', RunActivity STARTUP,
                              ActivityDone STARTUP, SetStarted, RaiseReady]"
  have leaf: "\<exists>pre. fst run = Some (Raised CancelledError)
                \<and> trace (snd run) = trace s @ five @ pre @ [not_at_all]
                \<and> RunActivity CLEANUP \<notin> set pre \<and> VaultClose \<notin> set pre"
  proof (cases "cancelled_at_roots h")
    case True
    with B runner_leaves(4) [where h = h and system_tasks = system_tasks and root_tasks = root_tasks
        and current_task = current_task and s = s]
    have "run = (Some (Raised CancelledError),
                 emit [not_at_all] (emit [Wait roots None ALL_COMPLETED] (started s)))"
      by (simp add: run_def roots_def not_at_all_def)
    then show ?thesis
      by (intro exI [of _ "[Wait roots None ALL_COMPLETED]"]) (simp add: five_def)
  next
    case False
    with B have ae: "all_exit (exits h) [task \<leftarrow> root_tasks. task \<noteq> current_task] (started s)"
      and cs: "cancelled_at_systems h"
      by (simp_all add: all_exit_def roots_def)
    from B False ae cs runner_leaves(6) [where h = h and system_tasks = system_tasks and root_tasks = root_tasks
        and current_task = current_task and s = s]
    have "run = (Some (Raised CancelledError),
                 emit [not_at_all] (emit [Wait systems None ALL_COMPLETED]
                   (waited (exits h) roots (started s))))"
      by (simp add: run_def roots_def systems_def not_at_all_def)
    then show ?thesis
      by (intro exI [of _ "Wait roots None ALL_COMPLETED # map Awaited roots
                             @ [Wait systems None ALL_COMPLETED]"])
        (auto simp add: five_def)
  qed
  then obtain pre where run: "fst run = Some (Raised CancelledError)"
    and tr: "trace (snd run) = trace s @ five @ pre @ [not_at_all]"
    and pre: "RunActivity CLEANUP \<notin> set pre" "VaultClose \<notin> set pre"
    by blast
  have new: "new = five @ pre @ [not_at_all]"
    using tr by (simp add: new_def new_trace_def run_def)
  show "fst run = Some (Raised CancelledError)" by (simp add: run)
  show "RunActivity CLEANUP \<notin> set new" using pre by (simp add: new not_at_all_def five_def)
  show "VaultClose \<notin> set new" using pre by (simp add: new not_at_all_def five_def)
  show "LogWarning ''Cleanup activity is not executed at all due to cancellation.'' \<in> set new"
    by (simp add: new not_at_all_def)
qed

theorem cleanup_after_other_tasks_witness:
  "RunActivity CLEANUP
     \<in> set (new_trace (happenings_example Returned False False) [0, 1, 2] [3, 4] 2
              (state_example [0, 1, 2, 3, 4]))
   \<and> results (snd (startup_cleanup_activities (happenings_example Returned False False)
                     [0, 1, 2] [3, 4] 2 (state_example [0, 1, 2, 3, 4]))) 3 \<noteq> None
   \<and> results (snd (startup_cleanup_activities (happenings_example Returned False False)
                     [0, 1, 2] [3, 4] 2 (state_example [0, 1, 2, 3, 4]))) 0 \<noteq> None
   \<and> precedes (Awaited 4) (RunActivity CLEANUP)
        (new_trace (happenings_example Returned False False) [0, 1, 2] [3, 4] 2
           (state_example [0, 1, 2, 3, 4]))
   \<and> precedes (Awaited 1) (RunActivity CLEANUP)
        (new_trace (happenings_example Returned False False) [0, 1, 2] [3, 4] 2
           (state_example [0, 1, 2, 3, 4]))
   \<and> precedes (ActivityDone CLEANUP) VaultClose
        (new_trace (happenings_example Returned False False) [0, 1, 2] [3, 4] 2
           (state_example [0, 1, 2, 3, 4]))
   \<and> new_trace (happenings_example Returned True False) [0, 1, 2] [3, 4] 2
        (state_example [0, 1, 2, 3, 4])
      = [LogDebug ''Starting Kopf.'', RunActivity STARTUP, ActivityDone STARTUP, SetStarted,
         RaiseReady, Wait [3, 4] None ALL_COMPLETED,
         LogWarning ''Cleanup activity is not executed at all due to cancellation.'']
   \<and> fst (startup_cleanup_activities (happenings_example Returned True False)
             [0, 1, 2] [3, 4] 2 (state_example [0, 1, 2, 3, 4]))
      = Some (Raised CancelledError)
   \<and> fst (startup_cleanup_activities (happenings_example Returned False True)
             [0, 1, 2] [3, 4] 2 (state_example [0, 1, 2, 3, 4]))
      = Some (Raised CancelledError)
   \<and> RunActivity CLEANUP
     \<notin> set (new_trace (happenings_example Returned False True) [0, 1, 2] [3, 4] 2
              (state_example [0, 1, 2, 3, 4]))"
proof -
  let ?h = "happenings_example Returned False False"
  let ?r = "happenings_example Returned True False"
  let ?y = "happenings_example Returned False True"
  let ?s = "state_example [0, 1, 2, 3, 4]"
  note th = cleanup_after_other_tasks [where h = ?h and system_tasks = "[0, 1, 2]"
      and root_tasks = "[3, 4]" and current_task = 2 and s = ?s]
  note tr = cleanup_after_other_tasks [where h = ?r and system_tasks = "[0, 1, 2]"
      and root_tasks = "[3, 4]" and current_task = 2 and s = ?s]
  note ty = cleanup_after_other_tasks [where h = ?y and system_tasks = "[0, 1, 2]"
      and root_tasks = "[3, 4]" and current_task = 2 and s = ?s]
  have run: "new_trace ?h [0, 1, 2] [3, 4] 2 ?s
     = [LogDebug ''Starting Kopf.'', RunActivity STARTUP, ActivityDone STARTUP, SetStarted,
        RaiseReady, Wait [3, 4] None ALL_COMPLETED, Awaited 3, Awaited 4,
        Wait [0, 1] None ALL_COMPLETED, Awaited 0, Awaited 1,
        RunActivity CLEANUP, ActivityDone CLEANUP, VaultClose]"
    by code_simp
  have ran: "RunActivity CLEANUP \<in> set (new_trace ?h [0, 1, 2] [3, 4] 2 ?s)"
    "VaultClose \<in> set (new_trace ?h [0, 1, 2] [3, 4] 2 ?s)"
    unfolding run by simp_all
  have after: "results (snd (startup_cleanup_activities ?h [0, 1, 2] [3, 4] 2 ?s)) 3 \<noteq> None"
    "results (snd (startup_cleanup_activities ?h [0, 1, 2] [3, 4] 2 ?s)) 0 \<noteq> None"
    "precedes (Awaited 4) (RunActivity CLEANUP) (new_trace ?h [0, 1, 2] [3, 4] 2 ?s)"
    "precedes (Awaited 1) (RunActivity CLEANUP) (new_trace ?h [0, 1, 2] [3, 4] 2 ?s)"
    "precedes (ActivityDone CLEANUP) VaultClose (new_trace ?h [0, 1, 2] [3, 4] 2 ?s)"
    using th ran by simp_all
  have hyp: "startup_ends ?r = Returned \<and> ready_ends ?r = Returned \<and> woken ?r
               \<and> cancelled_at_roots ?r"
    "startup_ends ?y = Returned \<and> ready_ends ?y = Returned \<and> woken ?y
       \<and> (\<forall>t \<in> set [task \<leftarrow> [3, 4]. task \<noteq> 2]. results ?s t = None \<longrightarrow> exits ?y t \<noteq> None)
       \<and> cancelled_at_systems ?y"
    by (simp_all add: happenings_example_def)
  have skipped: "fst (startup_cleanup_activities ?r [0, 1, 2] [3, 4] 2 ?s)
                   = Some (Raised CancelledError)"
    using tr hyp(1) by blast
  have skipped': "fst (startup_cleanup_activities ?y [0, 1, 2] [3, 4] 2 ?s)
                    = Some (Raised CancelledError)"
    "RunActivity CLEANUP \<notin> set (new_trace ?y [0, 1, 2] [3, 4] 2 ?s)"
    using ty hyp(2) by blast+
  have run': "new_trace ?r [0, 1, 2] [3, 4] 2 ?s
      = [LogDebug ''Starting Kopf.'', RunActivity STARTUP, ActivityDone STARTUP, SetStarted,
         RaiseReady, Wait [3, 4] None ALL_COMPLETED,
         LogWarning ''Cleanup activity is not executed at all due to cancellation.'']"
    by code_simp
  from ran(1) after run' skipped skipped' show ?thesis by (intro conjI)
qed

subsection \<open>The signal flag and the stop-flag checker\<close>

lemma created_append [simp]: "created nm (xs @ ys) = created nm xs @ created nm ys"
  by (induction nm xs rule: created.induct) simp_all

lemma logged_append [simp]: "logged (xs @ ys) = logged xs @ logged ys"
  by (induction xs rule: logged.induct) simp_all




lemma created_signal_handlers [simp]: "created nm (add_signal_handlers main_thread supported) = []"
  by (simp add: add_signal_handlers_def)







end
